theory Spec2Isabelle
  imports Complex_Main "HOL-Library.Log_Nat"
begin

section \<open>MarkJSInput: the data model\<close>

text \<open>
  The class \<open>MarkJSInput\<close> of \<open>src/markjsinput.js\<close>, embedded as functions on a record
  of its fields.
\<close>

subsection \<open>Numbers\<close>

text \<open>
  A JavaScript number is an IEEE-754 double: a finite value (a rational; \<open>Fin 0\<close> is
  the positive zero), the negative zero, an infinity or NaN. An arithmetic operation
  returns the double nearest to the exact result, a tie going to the even significand
  (53 bits, exponents from -1022 to 1023, subnormal below).
\<close>

datatype jsnum = Fin rat | NZero | PInf | NInf | NaN

text \<open>The exponent of a positive rational: \<open>2 ^ e \<le> a < 2 ^ (e + 1)\<close>.\<close>

definition floorlog2 :: "rat \<Rightarrow> int" where
  "floorlog2 a =
     (let k = bitlen (fst (quotient_of a)) - bitlen (snd (quotient_of a))
      in if 2 powi k \<le> a then k else k - 1)"

text \<open>The nearest integer, a tie going to the even one.\<close>

definition round_even :: "rat \<Rightarrow> int" where
  "round_even m =
     (let f = \<lfloor>m\<rfloor>; d = m - of_int f
      in if d < 1 / 2 then f else if 1 / 2 < d then f + 1
         else if even f then f else f + 1)"

text \<open>
  The multiple of the unit in the last place nearest to a positive rational; the unit is
  \<open>2 ^ (e - 52)\<close> for a normal number, \<open>2 ^ (- 1074)\<close> for a subnormal one.
\<close>

definition nearest :: "rat \<Rightarrow> rat" where
  "nearest a =
     (let u = 2 powi (max (floorlog2 a) (- 1022) - 52)
      in of_int (round_even (a / u)) * u)"

text \<open>Rounding an exact result to a double, with overflow to infinity and underflow to zero.\<close>

definition rnd :: "rat \<Rightarrow> jsnum" where
  "rnd q =
     (if q = 0 then Fin 0
      else if 0 < q then
        (if 2 powi 1024 \<le> nearest q then PInf else Fin (nearest q))
      else
        (if 2 powi 1024 \<le> nearest (- q) then NInf
         else if nearest (- q) = 0 then NZero else Fin (- nearest (- q))))"


text \<open>The value, the finiteness and the sign bit of a number.\<close>

fun js_value :: "jsnum \<Rightarrow> rat" where
  "js_value (Fin q) = q"
| "js_value x = 0"

fun js_finite :: "jsnum \<Rightarrow> bool" where
  "js_finite (Fin q) = True"
| "js_finite NZero = True"
| "js_finite x = False"

fun js_zero :: "jsnum \<Rightarrow> bool" where
  "js_zero (Fin q) = (q = 0)"
| "js_zero NZero = True"
| "js_zero x = False"

fun js_negative :: "jsnum \<Rightarrow> bool" where
  "js_negative (Fin q) = (q < 0)"
| "js_negative NZero = True"
| "js_negative NInf = True"
| "js_negative x = False"

definition signed_zero :: "bool \<Rightarrow> jsnum" where
  "signed_zero neg = (if neg then NZero else Fin 0)"

definition signed_inf :: "bool \<Rightarrow> jsnum" where
  "signed_inf neg = (if neg then NInf else PInf)"

text \<open>\<open>x - y\<close>.\<close>

definition js_sub :: "jsnum \<Rightarrow> jsnum \<Rightarrow> jsnum" where
  "js_sub x y =
     (if x = NaN \<or> y = NaN then NaN
      else if x = PInf then (if y = PInf then NaN else PInf)
      else if x = NInf then (if y = NInf then NaN else NInf)
      else if y = PInf then NInf
      else if y = NInf then PInf
      else if js_value x - js_value y = 0
        then (if x = NZero \<and> y = Fin 0 then NZero else Fin 0)
      else rnd (js_value x - js_value y))"

text \<open>\<open>x * y\<close>.\<close>

definition js_mul :: "jsnum \<Rightarrow> jsnum \<Rightarrow> jsnum" where
  "js_mul x y =
     (if x = NaN \<or> y = NaN then NaN
      else if \<not> js_finite x \<or> \<not> js_finite y
        then (if js_zero x \<or> js_zero y then NaN
              else signed_inf (js_negative x \<noteq> js_negative y))
      else if js_value x * js_value y = 0
        then signed_zero (js_negative x \<noteq> js_negative y)
      else rnd (js_value x * js_value y))"

text \<open>\<open>x / y\<close>.\<close>

definition js_div :: "jsnum \<Rightarrow> jsnum \<Rightarrow> jsnum" where
  "js_div x y =
     (if x = NaN \<or> y = NaN then NaN
      else if \<not> js_finite x
        then (if \<not> js_finite y then NaN else signed_inf (js_negative x \<noteq> js_negative y))
      else if \<not> js_finite y then signed_zero (js_negative x \<noteq> js_negative y)
      else if js_zero y
        then (if js_zero x then NaN else signed_inf (js_negative x \<noteq> js_negative y))
      else if js_zero x then signed_zero (js_negative x \<noteq> js_negative y)
      else rnd (js_value x / js_value y))"

text \<open>
  \<open>Math.round\<close>: the nearest integer, a tie going up; the negative zero for a value in
  \<open>[-0.5, 0)\<close>; zeros, infinities and NaN as they are.
\<close>

fun js_round :: "jsnum \<Rightarrow> jsnum" where
  "js_round (Fin v) = (if v < 0 \<and> - (1 / 2) \<le> v then NZero else Fin (of_int \<lfloor>v + 1 / 2\<rfloor>))"
| "js_round x = x"

text \<open>\<open>x < y\<close>: false when an operand is NaN; the two zeros are equal.\<close>

fun js_less :: "jsnum \<Rightarrow> jsnum \<Rightarrow> bool" where
  "js_less NaN y = False"
| "js_less x NaN = False"
| "js_less PInf y = False"
| "js_less x NInf = False"
| "js_less NInf y = True"
| "js_less x PInf = True"
| "js_less x y = (js_value x < js_value y)"

text \<open>\<open>Math.min\<close> and \<open>Math.max\<close>: NaN when an operand is; the negative zero is the smaller zero.\<close>

definition js_min :: "jsnum \<Rightarrow> jsnum \<Rightarrow> jsnum" where
  "js_min x y =
     (if x = NaN \<or> y = NaN then NaN
      else if js_less x y then x else if js_less y x then y
      else if x = NZero then x else y)"

definition js_max :: "jsnum \<Rightarrow> jsnum \<Rightarrow> jsnum" where
  "js_max x y =
     (if x = NaN \<or> y = NaN then NaN
      else if js_less x y then y else if js_less y x then x
      else if x = NZero then y else x)"

text \<open>\<open>Math.abs\<close>.\<close>

fun js_abs :: "jsnum \<Rightarrow> jsnum" where
  "js_abs (Fin v) = Fin \<bar>v\<bar>"
| "js_abs NZero = Fin 0"
| "js_abs PInf = PInf"
| "js_abs NInf = PInf"
| "js_abs NaN = NaN"

text \<open>A number used as a condition: zero and NaN are false.\<close>

definition js_truthy :: "jsnum \<Rightarrow> bool" where
  "js_truthy x = (\<not> js_zero x \<and> x \<noteq> NaN)"

text \<open>\<open>x > y\<close>.\<close>

definition js_gt :: "jsnum \<Rightarrow> jsnum \<Rightarrow> bool" where
  "js_gt x y = js_less y x"

text \<open>
  The canvas as the class reads it: the box of \<open>getBoundingClientRect()\<close> and the
  internal resolution (\<open>canvas.width\<close>, \<open>canvas.height\<close>: unsigned integers of the DOM).
\<close>

record canvas =
  rect_left :: jsnum
  rect_top :: jsnum
  rect_width :: jsnum
  rect_height :: jsnum
  width :: nat
  height :: nat

record coords =
  coord_x :: jsnum
  coord_y :: jsnum

subsection \<open>Coordinate mapping\<close>

definition getCanvasCoordinates :: "canvas \<Rightarrow> jsnum \<Rightarrow> jsnum \<Rightarrow> coords" where
  "getCanvasCoordinates cv clientX clientY =
     (let visualWidth = rect_width cv;
          visualHeight = rect_height cv;
          internalWidth = Fin (of_nat (width cv));
          internalHeight = Fin (of_nat (height cv));
          scaleX = js_div internalWidth visualWidth;
          scaleY = js_div internalHeight visualHeight;
          canvasX = js_mul (js_sub clientX (rect_left cv)) scaleX;
          canvasY = js_mul (js_sub clientY (rect_top cv)) scaleY;
          canvasX' = js_max (Fin 0) (js_min (js_round canvasX) internalWidth);
          canvasY' = js_max (Fin 0) (js_min (js_round canvasY) internalHeight)
      in \<lparr>coord_x = canvasX', coord_y = canvasY'\<rparr>)"

text \<open>
  The reference definition of the claim, in its own words and in exact arithmetic:
  \<open>clamp(round((client - offset) * internal / rendered), 0, internal)\<close>.
\<close>

definition clamp :: "int \<Rightarrow> int \<Rightarrow> int \<Rightarrow> int" where
  "clamp v lo hi = (if v < lo then lo else if hi < v then hi else v)"

definition mapToCanvas_axis :: "rat \<Rightarrow> rat \<Rightarrow> nat \<Rightarrow> rat \<Rightarrow> int" where
  "mapToCanvas_axis client offset internal rendered =
     clamp (round ((client - offset) * of_nat internal / rendered)) 0 (int internal)"

text \<open>
  One coordinate as section 4.2 of the specification describes it, step by step, on
  doubles: the scale factor \<open>internal / rendered\<close>, the translation into element-local
  space, the product rounded to the nearest integer, the clamp into \<open>[0, internal]\<close>.
\<close>

definition mapToCanvas_steps :: "jsnum \<Rightarrow> jsnum \<Rightarrow> nat \<Rightarrow> jsnum \<Rightarrow> jsnum" where
  "mapToCanvas_steps viewport offset internal rendered =
     (let scale = js_div (Fin (of_nat internal)) rendered;
          local = js_sub viewport offset;
          rounded = js_round (js_mul local scale)
      in js_max (Fin 0) (js_min rounded (Fin (of_nat internal))))"

subsection \<open>Subscribers, input facts and what a call does\<close>

text \<open>
  A subscriber is an object the caller owns; the class holds references to such objects
  and compares them by identity. The store \<open>h\<close> says which handler methods the object
  behind a reference has when the class looks for one.
\<close>

type_synonym ref = nat

datatype handler_name =
    onKeyDown | onKeyUp
  | onMouseMove | onMouseDown | onMouseUp | onMouseClick | onMouseEnter
  | onTouchStart | onTouchMove | onTouchEnd
  | onGamepadConnected | onGamepadButton | onGamepadAxis

type_synonym heap = "ref \<Rightarrow> handler_name \<Rightarrow> bool"

record key_event =
  key :: string

record mouse_event =
  mouse_clientX :: jsnum
  mouse_clientY :: jsnum
  mouse_button :: int

record touch =
  touch_clientX :: jsnum
  touch_clientY :: jsnum

record touch_event =
  touches :: "touch list"
  changedTouches :: "touch list"

text \<open>A polled device: its axis values and the \<open>pressed\<close> flag of each button.\<close>

record gamepad =
  axes :: "jsnum list"
  buttons :: "bool list"

record gamepad_event =
  connected :: gamepad

record stick =
  stick_x :: jsnum
  stick_y :: jsnum

record axis_data =
  leftStick :: stick
  rightStick :: stick
  deadZone :: jsnum

text \<open>An input fact: the handler that receives it and the arguments of the call.\<close>

datatype fact =
    KeyDown key_event
  | KeyUp key_event
  | MouseMove jsnum jsnum
  | MouseDown jsnum jsnum int
  | MouseUp jsnum jsnum int
  | MouseClick jsnum jsnum int
  | MouseEnter jsnum jsnum
  | TouchStart jsnum jsnum
  | TouchMove jsnum jsnum
  | TouchEnd jsnum jsnum
  | GamepadConnected gamepad_event
  | GamepadButton nat
  | GamepadAxis axis_data

fun handler_of :: "fact \<Rightarrow> handler_name" where
  "handler_of (KeyDown e) = onKeyDown"
| "handler_of (KeyUp e) = onKeyUp"
| "handler_of (MouseMove px py) = onMouseMove"
| "handler_of (MouseDown px py b) = onMouseDown"
| "handler_of (MouseUp px py b) = onMouseUp"
| "handler_of (MouseClick px py b) = onMouseClick"
| "handler_of (MouseEnter px py) = onMouseEnter"
| "handler_of (TouchStart px py) = onTouchStart"
| "handler_of (TouchMove px py) = onTouchMove"
| "handler_of (TouchEnd px py) = onTouchEnd"
| "handler_of (GamepadConnected e) = onGamepadConnected"
| "handler_of (GamepadButton i) = onGamepadButton"
| "handler_of (GamepadAxis a) = onGamepadAxis"

text \<open>
  What a call of the class does to the outside, in order: \<open>Broadcast f\<close> when the class
  starts notifying its subscribers of the fact \<open>f\<close>, \<open>Invoke r f\<close> for the call of the
  handler of subscriber \<open>r\<close> with the arguments of \<open>f\<close>, \<open>PreventDefault\<close> for
  \<open>e.preventDefault()\<close>. A handler is the caller's code: the model records that it is
  called and takes it to return without calling back into the class while the loop over
  the subscribers runs.
\<close>

datatype effect = Broadcast fact | Invoke ref fact | PreventDefault

subsection \<open>The fields of the class\<close>

record mouse_state =
  mouse_x :: int
  mouse_y :: int
  mouse_buttons :: int

text \<open>
  \<open>mouse\<close> is a field only \<open>destroy\<close> assigns (\<open>None\<close>: not set). \<open>listening\<close> stands
  for the twelve DOM listeners, which \<open>_setupEventListeners\<close> adds and \<open>destroy\<close>
  removes together.
\<close>

record input_state =
  canvas :: canvas
  keys :: "string \<rightharpoonup> bool"
  gamepad :: "gamepad option"
  lastGamepadButtons :: "bool list"
  lastGamepadAxes :: "jsnum list"
  subscribers :: "ref list"
  mouse :: "mouse_state option"
  listening :: bool

definition constructor :: "canvas \<Rightarrow> input_state" where
  "constructor cv =
     \<lparr>canvas = cv, keys = Map.empty, gamepad = None, lastGamepadButtons = [],
      lastGamepadAxes = [], subscribers = [], mouse = None, listening = True\<rparr>"

subsection \<open>subscribe and unsubscribe\<close>

text \<open>The handle \<open>{ unsubscribe: () => this.unsubscribe(subscriber) }\<close>.\<close>

datatype handle = Handle ref

text \<open>\<open>Array.prototype.includes\<close>, on references: identity.\<close>

fun array_includes :: "'a list \<Rightarrow> 'a \<Rightarrow> bool" where
  "array_includes [] v = False"
| "array_includes (x # xs) v = (x = v \<or> array_includes xs v)"

definition subscribe :: "input_state \<Rightarrow> ref \<Rightarrow> input_state \<times> handle" where
  "subscribe s subscriber =
     ((if \<not> array_includes (subscribers s) subscriber
       then s\<lparr>subscribers := subscribers s @ [subscriber]\<rparr> else s),
      Handle subscriber)"

text \<open>\<open>Array.prototype.indexOf\<close>: the first index of the value, \<open>-1\<close> when absent.\<close>

fun indexOf :: "'a list \<Rightarrow> 'a \<Rightarrow> int" where
  "indexOf [] v = - 1"
| "indexOf (x # xs) v =
     (if x = v then 0
      else (let i = indexOf xs v in if i > - 1 then i + 1 else - 1))"

text \<open>\<open>xs.splice(index, 1)\<close> for an index that is not negative.\<close>

definition splice1 :: "'a list \<Rightarrow> nat \<Rightarrow> 'a list" where
  "splice1 xs index = take index xs @ drop (Suc index) xs"

definition unsubscribe :: "input_state \<Rightarrow> ref \<Rightarrow> input_state" where
  "unsubscribe s subscriber =
     (let index = indexOf (subscribers s) subscriber
      in if index > - 1 then s\<lparr>subscribers := splice1 (subscribers s) (nat index)\<rparr> else s)"

fun handle_unsubscribe :: "input_state \<Rightarrow> handle \<Rightarrow> input_state" where
  "handle_unsubscribe s (Handle subscriber) = unsubscribe s subscriber"

subsection \<open>Notifying the subscribers\<close>

text \<open>
  The loop every \<open>_handle...\<close> method runs:
  \<open>for (const subscriber of this.subscribers) if (subscriber.onX) subscriber.onX(args)\<close>.
\<close>

fun notify :: "heap \<Rightarrow> fact \<Rightarrow> ref list \<Rightarrow> effect list" where
  "notify h f [] = []"
| "notify h f (subscriber # rest) =
     (if h subscriber (handler_of f) then Invoke subscriber f # notify h f rest
      else notify h f rest)"

definition broadcast :: "heap \<Rightarrow> input_state \<Rightarrow> fact \<Rightarrow> effect list" where
  "broadcast h s f = Broadcast f # notify h f (subscribers s)"

subsection \<open>Keyboard, mouse and touch\<close>

text \<open>
  The key table is a plain object (\<open>this.keys = {}\<close>), and \<open>keys s\<close> holds its own
  properties. The assignment \<open>this.keys[k] = v\<close> creates or overwrites the own property
  \<open>k\<close>, except for \<open>k = "__proto__"\<close>: there it runs the setter inherited from
  \<open>Object.prototype\<close>, which ignores a boolean, and no property is stored.
\<close>

definition object_set :: "(string \<rightharpoonup> bool) \<Rightarrow> string \<Rightarrow> bool \<Rightarrow> (string \<rightharpoonup> bool)" where
  "object_set m k v = (if k = ''__proto__'' then m else m(k \<mapsto> v))"

definition handleKeyDown :: "heap \<Rightarrow> input_state \<Rightarrow> key_event \<Rightarrow> input_state \<times> effect list" where
  "handleKeyDown h s e =
     (let s' = s\<lparr>keys := object_set (keys s) (key e) True\<rparr> in (s', broadcast h s' (KeyDown e)))"

definition handleKeyUp :: "heap \<Rightarrow> input_state \<Rightarrow> key_event \<Rightarrow> input_state \<times> effect list" where
  "handleKeyUp h s e =
     (let s' = s\<lparr>keys := object_set (keys s) (key e) False\<rparr> in (s', broadcast h s' (KeyUp e)))"

definition handleMouseMove :: "heap \<Rightarrow> input_state \<Rightarrow> mouse_event \<Rightarrow> input_state \<times> effect list" where
  "handleMouseMove h s e =
     (let pos = getCanvasCoordinates (canvas s) (mouse_clientX e) (mouse_clientY e)
      in (s, broadcast h s (MouseMove (coord_x pos) (coord_y pos))))"

definition handleMouseDown :: "heap \<Rightarrow> input_state \<Rightarrow> mouse_event \<Rightarrow> input_state \<times> effect list" where
  "handleMouseDown h s e =
     (let pos = getCanvasCoordinates (canvas s) (mouse_clientX e) (mouse_clientY e)
      in (s, broadcast h s (MouseDown (coord_x pos) (coord_y pos) (mouse_button e))))"

definition handleMouseUp :: "heap \<Rightarrow> input_state \<Rightarrow> mouse_event \<Rightarrow> input_state \<times> effect list" where
  "handleMouseUp h s e =
     (let pos = getCanvasCoordinates (canvas s) (mouse_clientX e) (mouse_clientY e)
      in (s, broadcast h s (MouseUp (coord_x pos) (coord_y pos) (mouse_button e))))"

definition handleMouseClick :: "heap \<Rightarrow> input_state \<Rightarrow> mouse_event \<Rightarrow> input_state \<times> effect list" where
  "handleMouseClick h s e =
     (let pos = getCanvasCoordinates (canvas s) (mouse_clientX e) (mouse_clientY e)
      in (s, broadcast h s (MouseClick (coord_x pos) (coord_y pos) (mouse_button e))))"

definition handleContextMenu :: "input_state \<Rightarrow> input_state \<times> effect list" where
  "handleContextMenu s = (s, [PreventDefault])"

definition handleMouseEnter :: "heap \<Rightarrow> input_state \<Rightarrow> mouse_event \<Rightarrow> input_state \<times> effect list" where
  "handleMouseEnter h s e =
     (let pos = getCanvasCoordinates (canvas s) (mouse_clientX e) (mouse_clientY e)
      in (s, broadcast h s (MouseEnter (coord_x pos) (coord_y pos))))"

text \<open>Only the first touch point is read; without one the event is dropped.\<close>

definition handleTouchStart :: "heap \<Rightarrow> input_state \<Rightarrow> touch_event \<Rightarrow> input_state \<times> effect list" where
  "handleTouchStart h s e =
     (case touches e of
        [] \<Rightarrow> (s, [PreventDefault])
      | t # _ \<Rightarrow>
          (let pos = getCanvasCoordinates (canvas s) (touch_clientX t) (touch_clientY t)
           in (s, PreventDefault # broadcast h s (TouchStart (coord_x pos) (coord_y pos)))))"

definition handleTouchMove :: "heap \<Rightarrow> input_state \<Rightarrow> touch_event \<Rightarrow> input_state \<times> effect list" where
  "handleTouchMove h s e =
     (case touches e of
        [] \<Rightarrow> (s, [PreventDefault])
      | t # _ \<Rightarrow>
          (let pos = getCanvasCoordinates (canvas s) (touch_clientX t) (touch_clientY t)
           in (s, PreventDefault # broadcast h s (TouchMove (coord_x pos) (coord_y pos)))))"

definition handleTouchEnd :: "heap \<Rightarrow> input_state \<Rightarrow> touch_event \<Rightarrow> input_state \<times> effect list" where
  "handleTouchEnd h s e =
     (case changedTouches e of
        [] \<Rightarrow> (s, [PreventDefault])
      | t # _ \<Rightarrow>
          (let pos = getCanvasCoordinates (canvas s) (touch_clientX t) (touch_clientY t)
           in (s, PreventDefault # broadcast h s (TouchEnd (coord_x pos) (coord_y pos)))))"

subsection \<open>Gamepad\<close>

definition handleGamepadConnected ::
  "heap \<Rightarrow> input_state \<Rightarrow> gamepad_event \<Rightarrow> input_state \<times> effect list" where
  "handleGamepadConnected h s e = (s, broadcast h s (GamepadConnected e))"

definition handleGamepadButton :: "heap \<Rightarrow> input_state \<Rightarrow> nat \<Rightarrow> effect list" where
  "handleGamepadButton h s buttonIndex = broadcast h s (GamepadButton buttonIndex)"

definition handleGamepadAxis :: "heap \<Rightarrow> input_state \<Rightarrow> axis_data \<Rightarrow> effect list" where
  "handleGamepadAxis h s axisData = broadcast h s (GamepadAxis axisData)"

text \<open>
  \<open>xs[i] || 0\<close> and \<open>bs[i] || false\<close>: a missing entry reads as zero, as unpressed; so
  does an axis entry that is a zero or NaN.
\<close>

definition axis_or_zero :: "jsnum list \<Rightarrow> nat \<Rightarrow> jsnum" where
  "axis_or_zero xs i = (if i < length xs \<and> js_truthy (xs ! i) then xs ! i else Fin 0)"

definition flag_or_false :: "bool list \<Rightarrow> nat \<Rightarrow> bool" where
  "flag_or_false bs i = (if i < length bs then bs ! i else False)"

text \<open>The loop over the buttons, from index \<open>i\<close> on.\<close>

function updateGamepad_buttons :: "heap \<Rightarrow> input_state \<Rightarrow> gamepad \<Rightarrow> nat \<Rightarrow> effect list" where
  "updateGamepad_buttons h s gp i =
     (if i < length (buttons gp) then
        (let pressed = buttons gp ! i;
             wasPressed = flag_or_false (lastGamepadButtons s) i
         in (if pressed \<and> \<not> wasPressed then handleGamepadButton h s i else [])
            @ updateGamepad_buttons h s gp (Suc i))
      else [])"
  by pat_completeness auto
termination
  by (relation "measure (\<lambda>(h, s, gp, i). length (buttons gp) - i)") auto

declare updateGamepad_buttons.simps [simp del]

text \<open>
  The body of the loop over the device slots, for a slot that holds a device. The
  literals \<open>0.3\<close> and \<open>0.1\<close> are the doubles nearest to 3/10 and 1/10.
\<close>

definition updateGamepad_device :: "heap \<Rightarrow> input_state \<Rightarrow> gamepad \<Rightarrow> input_state \<times> effect list" where
  "updateGamepad_device h s gp =
     (let s1 = s\<lparr>gamepad := Some gp\<rparr>;
          deadZone = rnd (3 / 10);
          leftStickX = axis_or_zero (axes gp) 0;
          leftStickY = axis_or_zero (axes gp) 1;
          lastLeftStickX = axis_or_zero (lastGamepadAxes s1) 0;
          lastLeftStickY = axis_or_zero (lastGamepadAxes s1) 1;
          rightStickX = axis_or_zero (axes gp) 2;
          rightStickY = axis_or_zero (axes gp) 3;
          lastRightStickX = axis_or_zero (lastGamepadAxes s1) 2;
          lastRightStickY = axis_or_zero (lastGamepadAxes s1) 3;
          t1 = (if js_gt (js_abs (js_sub leftStickX lastLeftStickX)) (rnd (1 / 10)) \<or>
                   js_gt (js_abs (js_sub leftStickY lastLeftStickY)) (rnd (1 / 10)) \<or>
                   js_gt (js_abs (js_sub rightStickX lastRightStickX)) (rnd (1 / 10)) \<or>
                   js_gt (js_abs (js_sub rightStickY lastRightStickY)) (rnd (1 / 10))
                then handleGamepadAxis h s1
                       \<lparr>leftStick = \<lparr>stick_x = leftStickX, stick_y = leftStickY\<rparr>,
                        rightStick = \<lparr>stick_x = rightStickX, stick_y = rightStickY\<rparr>,
                        deadZone = deadZone\<rparr>
                else []);
          s2 = s1\<lparr>lastGamepadAxes := axes gp\<rparr>;
          t2 = updateGamepad_buttons h s2 gp 0;
          s3 = s2\<lparr>lastGamepadButtons := buttons gp\<rparr>
      in (s3, t1 @ t2))"

text \<open>The loop over the slots: the first slot that holds a device is processed, then \<open>break\<close>.\<close>

fun updateGamepad_slots ::
  "heap \<Rightarrow> input_state \<Rightarrow> gamepad option list \<Rightarrow> input_state \<times> effect list" where
  "updateGamepad_slots h s [] = (s, [])"
| "updateGamepad_slots h s (None # gps) = updateGamepad_slots h s gps"
| "updateGamepad_slots h s (Some gp # gps) = updateGamepad_device h s gp"

text \<open>
  \<open>navigator.getGamepads()\<close> answers with nothing (\<open>None\<close>) or with the device slots,
  each empty or holding a device.
\<close>

definition updateGamepad ::
  "heap \<Rightarrow> input_state \<Rightarrow> gamepad option list option \<Rightarrow> input_state \<times> effect list" where
  "updateGamepad h s gamepads =
     (case gamepads of None \<Rightarrow> (s, []) | Some gps \<Rightarrow> updateGamepad_slots h s gps)"

definition update ::
  "heap \<Rightarrow> input_state \<Rightarrow> gamepad option list option \<Rightarrow> input_state \<times> effect list" where
  "update h s gamepads = updateGamepad h s gamepads"

subsection \<open>destroy\<close>

definition destroy :: "input_state \<Rightarrow> input_state" where
  "destroy s =
     s\<lparr>listening := False,
       subscribers := [],
       keys := Map.empty,
       mouse := Some \<lparr>mouse_x = 0, mouse_y = 0, mouse_buttons = 0\<rparr>,
       gamepad := None,
       lastGamepadButtons := [],
       lastGamepadAxes := []\<rparr>"

subsection \<open>The class as the host and the caller drive it\<close>

text \<open>The DOM events the class listens to, as \<open>_setupEventListeners\<close> wires them.\<close>

datatype dom_event =
    keydown key_event
  | keyup key_event
  | mousemove mouse_event
  | mousedown mouse_event
  | mouseup mouse_event
  | mouseenter mouse_event
  | click mouse_event
  | contextmenu
  | touchstart touch_event
  | touchmove touch_event
  | touchend touch_event
  | gamepadconnected gamepad_event

fun listener :: "heap \<Rightarrow> input_state \<Rightarrow> dom_event \<Rightarrow> input_state \<times> effect list" where
  "listener h s (keydown e) = handleKeyDown h s e"
| "listener h s (keyup e) = handleKeyUp h s e"
| "listener h s (mousemove e) = handleMouseMove h s e"
| "listener h s (mousedown e) = handleMouseDown h s e"
| "listener h s (mouseup e) = handleMouseUp h s e"
| "listener h s (mouseenter e) = handleMouseEnter h s e"
| "listener h s (click e) = handleMouseClick h s e"
| "listener h s contextmenu = handleContextMenu s"
| "listener h s (touchstart e) = handleTouchStart h s e"
| "listener h s (touchmove e) = handleTouchMove h s e"
| "listener h s (touchend e) = handleTouchEnd h s e"
| "listener h s (gamepadconnected e) = handleGamepadConnected h s e"

text \<open>An event of the host reaches its listener as long as the listeners are registered.\<close>

definition deliver :: "heap \<Rightarrow> input_state \<Rightarrow> dom_event \<Rightarrow> input_state \<times> effect list" where
  "deliver h s ev = (if listening s then listener h s ev else (s, []))"

datatype operation =
    Subscribe ref
  | Unsubscribe ref
  | HandleUnsubscribe handle
  | Update "gamepad option list option"
  | Destroy
  | HostEvent dom_event

fun step :: "heap \<Rightarrow> input_state \<Rightarrow> operation \<Rightarrow> input_state \<times> effect list" where
  "step h s (Subscribe r) = (fst (subscribe s r), [])"
| "step h s (Unsubscribe r) = (unsubscribe s r, [])"
| "step h s (HandleUnsubscribe hdl) = (handle_unsubscribe s hdl, [])"
| "step h s (Update gamepads) = update h s gamepads"
| "step h s Destroy = (destroy s, [])"
| "step h s (HostEvent ev) = deliver h s ev"



subsection \<open>Handlers that act on the class\<close>

text \<open>
  The functions above take every handler to return without touching the class. A handler
  is the caller's code, though, and runs in the middle of the loop
  \<open>for (const subscriber of this.subscribers) if (subscriber.onX) subscriber.onX(args)\<close>:
  it may call \<open>subscribe\<close>, \<open>unsubscribe\<close> or \<open>destroy\<close>, give an object a handler or
  take one away, throw, or not return. The loop is modelled here as the array iterator
  runs it: it takes the array object that \<open>this.subscribers\<close> refers to once, and before
  every step reads the length and the entry of that same array as they are then.

  \<open>member\<close> is what the property \<open>subscriber.onX\<close> holds: nothing (or a value that counts
  as false), a function, or another value that counts as true, whose call throws a
  TypeError. A world is the instance, the identity of the array object in
  \<open>this.subscribers\<close> (its contents are \<open>subscribers\<close>), the contents of the array objects
  the field referred to before, and the members of every object. A behaviour says what
  the handler of an object does to the world when called with a fact, and how it ends.
\<close>

datatype member = Absent | Method | Other

datatype completion = Returns | Throws | Hangs

record world =
  input :: input_state
  array_id :: nat
  old_arrays :: "nat \<Rightarrow> ref list"
  members :: "ref \<Rightarrow> handler_name \<Rightarrow> member"

definition array_content :: "world \<Rightarrow> nat \<Rightarrow> ref list" where
  "array_content w a = (if a = array_id w then subscribers (input w) else old_arrays w a)"

type_synonym behaviour = "ref \<Rightarrow> fact \<Rightarrow> world \<Rightarrow> world \<times> completion"

text \<open>
  The loop over array \<open>a\<close> from index \<open>i\<close> on, with the effects so far in \<open>t\<close>. \<open>None\<close>:
  the loop does not return.
\<close>

partial_function (option) notify_live ::
  "behaviour \<Rightarrow> fact \<Rightarrow> nat \<Rightarrow> nat \<Rightarrow> world \<Rightarrow> effect list
     \<Rightarrow> (world \<times> effect list \<times> completion) option" where
  "notify_live b f a i w t =
     (if i < length (array_content w a) then
        (case members w (array_content w a ! i) (handler_of f) of
           Absent \<Rightarrow> notify_live b f a (Suc i) w t
         | Other \<Rightarrow> Some (w, t, Throws)
         | Method \<Rightarrow>
             (case b (array_content w a ! i) f w of
                (w', Returns) \<Rightarrow>
                  notify_live b f a (Suc i) w' (t @ [Invoke (array_content w a ! i) f])
              | (w', Throws) \<Rightarrow> Some (w', t @ [Invoke (array_content w a ! i) f], Throws)
              | (w', Hangs) \<Rightarrow> None))
      else Some (w, t, Returns))"

definition broadcast_live ::
  "behaviour \<Rightarrow> world \<Rightarrow> fact \<Rightarrow> (world \<times> effect list \<times> completion) option" where
  "broadcast_live b w f = notify_live b f (array_id w) 0 w [Broadcast f]"

definition handleMouseMove_live ::
  "behaviour \<Rightarrow> world \<Rightarrow> mouse_event \<Rightarrow> (world \<times> effect list \<times> completion) option" where
  "handleMouseMove_live b w e =
     (let pos = getCanvasCoordinates (canvas (input w)) (mouse_clientX e) (mouse_clientY e)
      in broadcast_live b w (MouseMove (coord_x pos) (coord_y pos)))"

text \<open>A handler that calls \<open>unsubscribe(r)\<close>: the array in the field is spliced in place.\<close>

definition calls_unsubscribe :: "ref \<Rightarrow> world \<Rightarrow> world" where
  "calls_unsubscribe r w = w\<lparr>input := unsubscribe (input w) r\<rparr>"

text \<open>
  What the loop over array \<open>a\<close> for the fact \<open>f\<close> reads, the array and the members
  named by \<open>f\<close> of the objects in it, is in \<open>w\<close> as it was in \<open>w0\<close>. The handlers are
  quiet when each of them, called in such a world, returns and leaves such a world.
\<close>

definition seen_unchanged :: "nat \<Rightarrow> fact \<Rightarrow> world \<Rightarrow> world \<Rightarrow> bool" where
  "seen_unchanged a f w0 w \<longleftrightarrow>
     array_content w a = array_content w0 a
     \<and> (\<forall>r\<in>set (array_content w0 a). members w r (handler_of f) = members w0 r (handler_of f))"

definition quiet :: "behaviour \<Rightarrow> nat \<Rightarrow> fact \<Rightarrow> world \<Rightarrow> bool" where
  "quiet b a f w0 \<longleftrightarrow>
     (\<forall>r\<in>set (array_content w0 a). members w0 r (handler_of f) = Method \<longrightarrow>
        (\<forall>w. seen_unchanged a f w0 w \<longrightarrow>
           seen_unchanged a f w0 (fst (b r f w)) \<and> snd (b r f w) = Returns))"

subsection \<open>Reading what a call did\<close>



text \<open>What a loop over the live array did to the outside, and how it ended.\<close>

fun effects_of :: "(world \<times> effect list \<times> completion) option \<Rightarrow> effect list" where
  "effects_of None = []"
| "effects_of (Some (w, t, c)) = t"

fun completion_of :: "(world \<times> effect list \<times> completion) option \<Rightarrow> completion" where
  "completion_of None = Hangs"
| "completion_of (Some (w, t, c)) = c"

subsection \<open>Sample data\<close>

text \<open>
  An 800 x 600 canvas rendered at 400 x 300 with its corner at (10, 20); three subscriber objects, of which 1 has
  every handler, 2 only \<open>onGamepadButton\<close> and \<open>onMouseMove\<close>, 3 none; an instance
  with 1, 2 and 3 subscribed in that order.
\<close>

definition sample_canvas :: canvas where
  "sample_canvas =
     \<lparr>rect_left = Fin 10, rect_top = Fin 20, rect_width = Fin 400, rect_height = Fin 300,
      width = 800, height = 600\<rparr>"






definition sample_heap :: heap where
  "sample_heap r n = (r = 1 \<or> (r = 2 \<and> (n = onGamepadButton \<or> n = onMouseMove)))"

definition sample_input :: input_state where
  "sample_input = (constructor sample_canvas)\<lparr>subscribers := [1, 2, 3]\<rparr>"

text \<open>
  The same instance as a world, the objects having their handlers as methods. Handlers
  that do nothing to the class; handlers that each unsubscribe object 7, which is not
  subscribed; handlers of which the one of object 1 unsubscribes object 1; and handlers
  of which the one of object 1 throws.
\<close>

definition sample_world :: world where
  "sample_world =
     \<lparr>input = sample_input, array_id = 0, old_arrays = (\<lambda>a. []),
      members = (\<lambda>r n. if sample_heap r n then Method else Absent)\<rparr>"

definition inert :: behaviour where
  "inert r f w = (w, Returns)"

definition unsubscribing :: behaviour where
  "unsubscribing r f w = (if r = 1 then calls_unsubscribe 1 w else w, Returns)"

definition tidying :: behaviour where
  "tidying r f w = (calls_unsubscribe 7 w, Returns)"

definition throwing :: behaviour where
  "throwing r f w = (w, if r = 1 then Throws else Returns)"

section \<open>Double arithmetic: rounding\<close>

lemma floorlog2_bounds:
  assumes "0 < a"
  shows "2 powi (floorlog2 a) \<le> a \<and> a < 2 powi (floorlog2 a + 1)"
proof -
  obtain p q where pq: "quotient_of a = (p, q)" by (cases "quotient_of a")
  have q: "0 < q" using pq by (rule quotient_of_denom_pos)
  have a: "a = of_int p / of_int q" using pq by (rule quotient_of_div)
  have p: "0 < p" using assms a q by (simp add: zero_less_divide_iff)
  let ?bp = "bitlen p" and ?bq = "bitlen q"
  have bp: "2 ^ nat (?bp - 1) \<le> p" "p < 2 ^ nat ?bp" using bitlen_bounds[OF p] by auto
  have bq: "2 ^ nat (?bq - 1) \<le> q" "q < 2 ^ nat ?bq" using bitlen_bounds[OF q] by auto
  have bp1: "1 \<le> ?bp"
  proof (rule ccontr)
    assume "\<not> 1 \<le> ?bp"
    then have "nat ?bp = 0" by simp
    then show False using bp(2) p by simp
  qed
  have bq1: "1 \<le> ?bq"
  proof (rule ccontr)
    assume "\<not> 1 \<le> ?bq"
    then have "nat ?bq = 0" by simp
    then show False using bq(2) q by simp
  qed
  have rp: "(2::rat) ^ nat (?bp - 1) \<le> of_int p" "(of_int p :: rat) < 2 ^ nat ?bp"
    using bp by (metis of_int_le_iff of_int_numeral of_int_power, metis of_int_less_iff of_int_numeral of_int_power)
  have rq: "(2::rat) ^ nat (?bq - 1) \<le> of_int q" "(of_int q :: rat) < 2 ^ nat ?bq"
    using bq by (metis of_int_le_iff of_int_numeral of_int_power, metis of_int_less_iff of_int_numeral of_int_power)
  have pw: "(2::rat) powi ?bp = 2 ^ nat ?bp" "(2::rat) powi ?bq = 2 ^ nat ?bq"
       "(2::rat) powi (?bp - 1) = 2 ^ nat (?bp - 1)" "(2::rat) powi (?bq - 1) = 2 ^ nat (?bq - 1)"
    using bp1 bq1 by (simp_all add: power_int_def)
  have qpos: "(0::rat) < of_int q" using q by simp
  have up: "a < 2 powi (?bp - ?bq + 1)"
  proof -
    have "a < 2 powi ?bp / of_int q" unfolding a pw using rp(2) qpos by (simp add: divide_strict_right_mono)
    also have "\<dots> \<le> 2 powi ?bp / 2 powi (?bq - 1)"
    proof -
      have "(0::rat) < of_int q * 2 ^ nat (?bq - 1)" using qpos by simp
      then show ?thesis
        unfolding pw using rq(1) by (intro divide_left_mono) simp_all
    qed
    also have "\<dots> = 2 powi (?bp - ?bq + 1)"
      by (simp add: power_int_diff[symmetric] algebra_simps)
    finally show ?thesis .
  qed
  have lo: "2 powi (?bp - ?bq - 1) < a"
  proof -
    have "(2::rat) powi (?bp - ?bq - 1) = 2 powi (?bp - 1) / 2 powi ?bq"
      by (simp add: power_int_diff[symmetric] algebra_simps)
    also have "\<dots> < 2 powi (?bp - 1) / of_int q"
    proof -
      have "(0::rat) < 2 ^ nat ?bq * of_int q" using qpos by simp
      then show ?thesis
        unfolding pw using rq(2) by (intro divide_strict_left_mono) simp_all
    qed
    also have "\<dots> \<le> a" unfolding a pw using rp(1) qpos by (simp add: divide_right_mono)
    finally show ?thesis .
  qed
  have k: "floorlog2 a = (if 2 powi (?bp - ?bq) \<le> a then ?bp - ?bq else ?bp - ?bq - 1)"
    by (simp add: floorlog2_def pq Let_def)
  show ?thesis
  proof (cases "2 powi (?bp - ?bq) \<le> a")
    case True
    then show ?thesis using up k by simp
  next
    case False
    then show ?thesis using lo k by simp
  qed
qed

lemma round_even_lower: "m - 1 / 2 \<le> of_int (round_even m)"
proof -
  have "m - of_int \<lfloor>m\<rfloor> < 1" by linarith
  then show ?thesis
    by (auto simp: round_even_def Let_def)
qed

lemma round_even_nonneg: "0 \<le> m \<Longrightarrow> 0 \<le> round_even m"
  by (auto simp: round_even_def Let_def)

lemma round_even_ge_int: "of_int k \<le> m \<Longrightarrow> k \<le> round_even m"
proof -
  assume "of_int k \<le> m"
  then have "k \<le> \<lfloor>m\<rfloor>" by (simp add: le_floor_iff)
  then show ?thesis by (auto simp: round_even_def Let_def)
qed

lemma ulp_pos: "(0::rat) < 2 powi k"
  by (simp add: power_int_def)

lemma nearest_nonneg: "0 < a \<Longrightarrow> 0 \<le> nearest a"
  unfolding nearest_def Let_def
  by (intro mult_nonneg_nonneg) (simp_all add: round_even_nonneg ulp_pos less_imp_le)

lemma nearest_lower:
  assumes "1 / 2 ^ 1024 \<le> a"
  shows "a * (1 - 1 / 2 ^ 51) \<le> nearest a"
proof -
  have apos: "0 < a" using assms by (rule less_le_trans[rotated]) simp
  let ?e = "floorlog2 a"
  let ?u = "(2::rat) powi (max ?e (- 1022) - 52)"
  have u: "0 < ?u" by (rule ulp_pos)
  have fl: "2 powi ?e \<le> a" using floorlog2_bounds[OF apos] by simp
  have half: "?u / 2 \<le> a * (1 / 2 ^ 51)"
  proof (cases "- 1022 \<le> ?e")
    case True
    then have "?u = 2 powi ?e * (1 / 2 ^ 52)"
      by (simp add: max_def power_int_diff)
    then have "?u / 2 = 2 powi ?e * (1 / 2 ^ 53)" by simp
    also have "\<dots> \<le> a * (1 / 2 ^ 53)" using fl by (intro mult_right_mono) simp_all
    also have "\<dots> \<le> a * (1 / 2 ^ 51)" using apos by (intro mult_left_mono) simp_all
    finally show ?thesis .
  next
    case False
    then have "?u = 1 / 2 ^ 1074"
      by (simp add: max_def power_int_def field_simps)
    then have "?u / 2 = (1 / 2 ^ 1024) * (1 / 2 ^ 51)" by simp
    also have "\<dots> \<le> a * (1 / 2 ^ 51)" using assms by (intro mult_right_mono) simp_all
    finally show ?thesis .
  qed
  have "a / ?u - 1 / 2 \<le> of_int (round_even (a / ?u))" by (rule round_even_lower)
  then have "(a / ?u - 1 / 2) * ?u \<le> of_int (round_even (a / ?u)) * ?u"
    using u by (intro mult_right_mono) simp_all
  moreover have "(a / ?u - 1 / 2) * ?u = a - ?u / 2"
    using u by (simp add: left_diff_distrib)
  ultimately have "a - ?u / 2 \<le> nearest a"
    by (simp add: nearest_def Let_def)
  then show ?thesis using half by (simp add: algebra_simps)
qed

lemma nearest_overflow:
  assumes "2 ^ 1024 \<le> a"
  shows "2 powi 1024 \<le> nearest a"
proof -
  have apos: "0 < a" using assms by (rule less_le_trans[rotated]) simp
  let ?e = "floorlog2 a"
  have "(2::rat) powi 1024 \<le> a" using assms by (simp add: power_int_def)
  also have "a < 2 powi (?e + 1)" using floorlog2_bounds[OF apos] by simp
  finally have lt: "(2::rat) powi 1024 < 2 powi (?e + 1)" .
  have e: "1024 \<le> ?e"
  proof (rule ccontr)
    assume "\<not> 1024 \<le> ?e"
    then have "?e + 1 \<le> 1024" by simp
    then have "(2::rat) powi (?e + 1) \<le> 2 powi 1024"
      by (intro power_int_increasing) simp_all
    then show False using lt by simp
  qed
  then have m: "max ?e (- 1022) = ?e" by simp
  let ?u = "(2::rat) powi (?e - 52)"
  have u: "0 < ?u" by (rule ulp_pos)
  have "2 powi ?e \<le> a" using floorlog2_bounds[OF apos] by simp
  then have "2 powi ?e / ?u \<le> a / ?u" using u by (simp add: divide_right_mono)
  moreover have "2 powi ?e / ?u = (2::rat) ^ 52"
    by (simp add: power_int_diff)
  ultimately have "of_int (2 ^ 52) \<le> a / ?u" by simp
  then have "2 ^ 52 \<le> round_even (a / ?u)" by (rule round_even_ge_int)
  then have "(2::rat) ^ 52 \<le> of_int (round_even (a / ?u))"
    by (metis of_int_le_iff of_int_numeral of_int_power)
  then have c: "2 ^ 52 * ?u \<le> of_int (round_even (a / ?u)) * ?u"
    using u by (intro mult_right_mono) simp_all
  have "(2::rat) powi 1024 \<le> 2 powi ?e"
    using e by (intro power_int_increasing) simp_all
  also have "2 powi ?e = 2 ^ 52 * ?u" by (simp add: power_int_diff)
  also note c
  also have "of_int (round_even (a / ?u)) * ?u = nearest a"
    by (simp add: nearest_def Let_def m)
  finally show ?thesis .
qed

lemma rnd_pos: "0 < q \<Longrightarrow> rnd q = PInf \<or> (\<exists>r. rnd q = Fin r \<and> 0 \<le> r)"
  by (simp add: rnd_def nearest_nonneg)

lemma rnd_neg: "q < 0 \<Longrightarrow> rnd q = NInf \<or> rnd q = NZero \<or> (\<exists>r. rnd q = Fin r \<and> r < 0)"
  using nearest_nonneg[of "- q"] by (auto simp: rnd_def)

lemma rnd_lower:
  "1 / 2 ^ 1024 \<le> q \<Longrightarrow> rnd q = PInf \<or> (\<exists>r. rnd q = Fin r \<and> q * (1 - 1 / 2 ^ 51) \<le> r)"
proof -
  assume a: "1 / 2 ^ 1024 \<le> q"
  then have "0 < q" by (rule less_le_trans[rotated]) simp
  then show ?thesis using nearest_lower[OF a] by (simp add: rnd_def)
qed

lemma rnd_finite_bound: "0 < q \<Longrightarrow> js_finite (rnd q) \<Longrightarrow> q < 2 ^ 1024"
proof (rule ccontr)
  assume q: "0 < q" and f: "js_finite (rnd q)" and "\<not> q < 2 ^ 1024"
  then have "2 powi 1024 \<le> nearest q" using nearest_overflow[of q] by simp
  then have "rnd q = PInf" using q by (simp add: rnd_def)
  then show False using f by simp
qed

section \<open>Double arithmetic: evaluation\<close>

text \<open>
  The double nearest to a given rational is found from its exponent \<open>e\<close> and the
  integer \<open>n\<close> nearest to the rational in units of \<open>2 ^ (e - 52)\<close>.
\<close>

lemma floorlog2_unique:
  assumes "0 < a" "2 powi e \<le> a" "a < 2 powi (e + 1)"
  shows "floorlog2 a = e"
proof -
  let ?f = "floorlog2 a"
  have b: "2 powi ?f \<le> a" "a < 2 powi (?f + 1)" using floorlog2_bounds[OF assms(1)] by auto
  have "\<not> ?f < e"
  proof
    assume "?f < e"
    then have "(2::rat) powi (?f + 1) \<le> 2 powi e" by (intro power_int_increasing) simp_all
    then show False using b(2) assms(2) by simp
  qed
  moreover have "\<not> e < ?f"
  proof
    assume "e < ?f"
    then have "(2::rat) powi (e + 1) \<le> 2 powi ?f" by (intro power_int_increasing) simp_all
    then show False using b(1) assms(3) by simp
  qed
  ultimately show ?thesis by simp
qed

lemma round_even_unique:
  assumes "\<bar>m - of_int n\<bar> < 1 / 2"
  shows "round_even m = n"
proof -
  have lo: "of_int n - 1 / 2 < m" and hi: "m < of_int n + 1 / 2" using assms by linarith+
  have "\<lfloor>m\<rfloor> = n \<or> \<lfloor>m\<rfloor> = n - 1"
  proof -
    have "n - 1 \<le> \<lfloor>m\<rfloor>" using lo by (simp add: le_floor_iff)
    moreover have "\<lfloor>m\<rfloor> \<le> n" using hi by (simp add: floor_le_iff)
    ultimately show ?thesis by auto
  qed
  then show ?thesis
  proof
    assume f: "\<lfloor>m\<rfloor> = n"
    then have "m - of_int \<lfloor>m\<rfloor> < 1 / 2" using hi by simp
    then show ?thesis using f by (simp add: round_even_def Let_def)
  next
    assume f: "\<lfloor>m\<rfloor> = n - 1"
    then have "1 / 2 < m - of_int \<lfloor>m\<rfloor>" using lo by simp
    then show ?thesis using f by (simp add: round_even_def Let_def)
  qed
qed

lemma nearest_eval:
  assumes "0 < a" "2 powi e \<le> a" "a < 2 powi (e + 1)" "- 1022 \<le> e"
    and "\<bar>a / 2 powi (e - 52) - of_int n\<bar> < 1 / 2"
  shows "nearest a = of_int n * 2 powi (e - 52)"
  using assms(4,5) by (simp add: nearest_def Let_def floorlog2_unique[OF assms(1-3)] round_even_unique)

lemma rnd_eval:
  assumes "0 < a" "2 powi e \<le> a" "a < 2 powi (e + 1)" "- 1022 \<le> e"
    and "\<bar>a / 2 powi (e - 52) - of_int n\<bar> < 1 / 2"
    and "r = of_int n * 2 powi (e - 52)" and "r < 2 powi 1024"
  shows "rnd a = Fin r"
  using assms(1,6,7) nearest_eval[OF assms(1-5)] by (simp add: rnd_def)

lemma rnd_eval_neg:
  assumes "0 < a" "2 powi e \<le> a" "a < 2 powi (e + 1)" "- 1022 \<le> e"
    and "\<bar>a / 2 powi (e - 52) - of_int n\<bar> < 1 / 2"
    and "r = of_int n * 2 powi (e - 52)" and "r < 2 powi 1024" and "0 < r"
  shows "rnd (- a) = Fin (- r)"
proof -
  have n: "nearest a = r" using nearest_eval[OF assms(1-5)] assms(6) by simp
  then have "nearest a \<noteq> 0" using assms(8) by simp
  then show ?thesis using assms(1,7) n by (simp add: rnd_def)
qed

lemma rnd_overflow: "2 ^ 1024 \<le> a \<Longrightarrow> rnd a = PInf"
proof -
  assume a: "2 ^ 1024 \<le> a"
  then have "0 < a" by (rule less_le_trans[rotated]) simp
  then show ?thesis using nearest_overflow[OF a] by (simp add: rnd_def)
qed

text \<open>An integer below \<open>2 ^ 53\<close> in absolute value is a double.\<close>

lemma nearest_int:
  assumes "0 < k" "k < 2 ^ 53"
  shows "nearest (of_int k) = of_int k"
proof -
  let ?a = "of_int k :: rat"
  let ?e = "floorlog2 ?a"
  have a0: "0 < ?a" using assms(1) by simp
  have b: "2 powi ?e \<le> ?a" "?a < 2 powi (?e + 1)" using floorlog2_bounds[OF a0] by auto
  have e0: "0 \<le> ?e"
  proof (rule ccontr)
    assume "\<not> 0 \<le> ?e"
    then have "?e + 1 \<le> 0" by simp
    then have "(2::rat) powi (?e + 1) \<le> 2 powi 0" by (intro power_int_increasing) simp_all
    then have "?a < 1" using b(2) by simp
    then show False using assms(1) by simp
  qed
  have e52: "?e \<le> 52"
  proof (rule ccontr)
    assume "\<not> ?e \<le> 52"
    then have "53 \<le> ?e" by simp
    then have "(2::rat) powi 53 \<le> 2 powi ?e" by (intro power_int_increasing) simp_all
    then have "(2::rat) ^ 53 \<le> ?a" using b(1) by (simp add: power_int_def)
    then have "(of_int (2 ^ 53) :: rat) \<le> of_int k" by simp
    then have "(2::int) ^ 53 \<le> k" by (simp only: of_int_le_iff)
    then show False using assms(2) by simp
  qed
  have m: "max ?e (- 1022) = ?e" using e0 by simp
  have u: "(2::rat) powi (?e - 52) = 1 / 2 ^ nat (52 - ?e)"
    using e52 by (simp add: power_int_def field_simps)
  have "?a / 2 powi (?e - 52) = of_int (k * 2 ^ nat (52 - ?e))" by (simp add: u)
  then have "round_even (?a / 2 powi (?e - 52)) = k * 2 ^ nat (52 - ?e)"
    by (simp only: round_even_unique[where n = "k * 2 ^ nat (52 - ?e)"] abs_zero diff_self zero_less_divide_1_iff zero_less_numeral)
  then show ?thesis by (simp add: nearest_def Let_def m u)
qed

lemma rnd_int: "\<bar>k\<bar> < 2 ^ 53 \<Longrightarrow> rnd (of_int k) = Fin (of_int k)"
proof -
  assume k: "\<bar>k\<bar> < 2 ^ 53"
  have big: "(2::rat) ^ 53 < 2 powi 1024" by (simp add: power_int_def)
  consider "k = 0" | "0 < k" | "k < 0" by linarith
  then show ?thesis
  proof cases
    case 1
    then show ?thesis by (simp add: rnd_def)
  next
    case 2
    have n: "nearest (of_int k) = of_int k" using nearest_int[of k] 2 k by simp
    have "(of_int k :: rat) < of_int (2 ^ 53)" using k 2 by (simp only: of_int_less_iff)
    then have "(of_int k :: rat) < 2 powi 1024" using big by simp
    then show ?thesis using 2 n by (simp add: rnd_def)
  next
    case 3
    have n: "nearest (of_int (- k)) = of_int (- k)" using nearest_int[of "- k"] 3 k by simp
    have "(of_int (- k) :: rat) < of_int (2 ^ 53)" using k 3 by (simp only: of_int_less_iff)
    then have "(of_int (- k) :: rat) < 2 powi 1024" using big by simp
    then show ?thesis using 3 n by (simp add: rnd_def)
  qed
qed

lemma rnd_numeral [simp]: "numeral k < (2::int) ^ 53 \<Longrightarrow> rnd (numeral k) = Fin (numeral k)"
  using rnd_int[of "numeral k"] by simp

lemma rnd_neg_numeral [simp]:
  "numeral k < (2::int) ^ 53 \<Longrightarrow> rnd (- numeral k) = Fin (- numeral k)"
  using rnd_int[of "- numeral k"] by simp

lemma rnd_one [simp]: "rnd 1 = Fin 1"
  using rnd_int[of 1] by simp










section \<open>Coordinate mapping\<close>

lemma js_min_Fin: "js_min (Fin a) (Fin b) = Fin (min a b)"
  by (simp add: js_min_def min_def)

lemma js_max_Fin: "js_max (Fin a) (Fin b) = Fin (max a b)"
  by (simp add: js_max_def max_def)

lemma clamp_Fin:
  "js_max (Fin 0) (js_min (Fin (of_int f)) (Fin (of_nat W)))
     = Fin (of_int (max 0 (min f (int W))))"
proof -
  have "max (0::rat) (min (of_int f) (of_nat W)) = of_int (max 0 (min f (int W)))"
    by (simp add: max_def min_def)
  then show ?thesis by (simp add: js_min_Fin js_max_Fin)
qed

lemma clamp_NZero: "js_max (Fin 0) (js_min NZero (Fin (of_nat W))) = Fin 0"
  by (simp add: js_min_def js_max_def)

lemma clamp_round_cases:
  "js_max (Fin 0) (js_min (js_round p) (Fin (of_nat W))) =
     (case p of
        Fin v \<Rightarrow> Fin (of_int (max 0 (min (round v) (int W))))
      | NZero \<Rightarrow> Fin 0
      | PInf \<Rightarrow> Fin (of_nat W)
      | NInf \<Rightarrow> Fin 0
      | NaN \<Rightarrow> NaN)"
proof (cases p)
  case (Fin v)
  show ?thesis
  proof (cases "v < 0 \<and> - (1 / 2) \<le> v")
    case True
    then have "0 \<le> v + 1 / 2" "v + 1 / 2 < 1" by simp_all
    then have "\<lfloor>v + 1 / 2\<rfloor> = 0" by (simp add: floor_eq_iff)
    then have "round v = 0" by (simp add: round_def)
    then show ?thesis using Fin True by (simp add: clamp_NZero)
  next
    case False
    then have "js_round p = Fin (of_int (round v))" using Fin by (simp add: round_def)
    then show ?thesis using Fin by (simp add: clamp_Fin)
  qed
next
  case NZero
  then show ?thesis by (simp add: clamp_NZero)
next
  case PInf
  then show ?thesis by (simp add: js_min_def js_max_def)
next
  case NInf
  then show ?thesis by (simp add: js_min_def js_max_def)
next
  case NaN
  then show ?thesis by (simp add: js_min_def js_max_def)
qed

lemma clamp_round_range:
  assumes "p \<noteq> NaN"
  shows "\<exists>k. js_max (Fin 0) (js_min (js_round p) (Fin (of_nat W))) = Fin (of_int k)
             \<and> 0 \<le> k \<and> k \<le> int W"
proof (cases p)
  case (Fin v)
  then show ?thesis unfolding clamp_round_cases
    by (intro exI[of _ "max 0 (min (round v) (int W))"]) simp
next
  case NZero
  then show ?thesis unfolding clamp_round_cases by (intro exI[of _ 0]) simp
next
  case PInf
  then show ?thesis unfolding clamp_round_cases by (intro exI[of _ "int W"]) simp
next
  case NInf
  then show ?thesis unfolding clamp_round_cases by (intro exI[of _ 0]) simp
next
  case NaN
  then show ?thesis using assms by simp
qed

lemma clamp_round_low:
  assumes "p = NInf \<or> p = NZero \<or> (\<exists>v. p = Fin v \<and> v \<le> 0)"
  shows "js_max (Fin 0) (js_min (js_round p) (Fin (of_nat W))) = Fin 0"
proof -
  consider "p = NInf" | "p = NZero" | v where "p = Fin v" "v \<le> 0" using assms by blast
  then show ?thesis
  proof cases
    case 3
    have "round v \<le> round (0::rat)" using 3(2) by (rule round_mono)
    then have "round v \<le> 0" by simp
    then show ?thesis using 3(1) unfolding clamp_round_cases by (simp add: max_def min_def)
  qed (simp_all add: js_min_def js_max_def)
qed

lemma clamp_round_high:
  assumes "p = PInf \<or> (\<exists>v. p = Fin v \<and> of_nat W - 1 / 2 \<le> v)"
  shows "js_max (Fin 0) (js_min (js_round p) (Fin (of_nat W))) = Fin (of_nat W)"
proof -
  consider "p = PInf" | v where "p = Fin v" "of_nat W - 1 / 2 \<le> v" using assms by blast
  then show ?thesis
  proof cases
    case 2
    have "of_int (int W) \<le> v + 1 / 2" using 2(2) by simp
    then have "int W \<le> \<lfloor>v + 1 / 2\<rfloor>" by (simp only: le_floor_iff)
    then have "int W \<le> round v" by (simp add: round_def)
    then have "max 0 (min (round v) (int W)) = int W" by simp
    then show ?thesis using 2(1) unfolding clamp_round_cases by simp
  qed (simp_all add: js_min_def js_max_def)
qed

lemma rnd_not_NaN: "rnd q \<noteq> NaN"
  by (simp add: rnd_def)

lemma scale_nonneg:
  assumes "0 < vw" and "js_finite (js_div (Fin (of_nat W)) (Fin vw))"
  shows "\<exists>sv. js_div (Fin (of_nat W)) (Fin vw) = Fin sv \<and> 0 \<le> sv"
proof (cases "W = 0")
  case True
  then show ?thesis using assms(1) by (simp add: js_div_def signed_zero_def)
next
  case False
  then have q: "0 < rat_of_nat W / vw" using assms(1) by simp
  have d: "js_div (Fin (of_nat W)) (Fin vw) = rnd (of_nat W / vw)"
    using False assms(1) by (simp add: js_div_def)
  show ?thesis using rnd_pos[OF q] assms(2) unfolding d by auto
qed

lemma mul_not_NaN: "js_finite a \<Longrightarrow> js_mul a (Fin sv) \<noteq> NaN"
  by (cases a) (simp_all add: js_mul_def signed_zero_def rnd_not_NaN)

lemma steps_range:
  assumes "0 < vw"
    and "js_finite (js_sub viewport offset)"
    and "js_finite (js_div (Fin (of_nat W)) (Fin vw))"
  shows "\<exists>k. mapToCanvas_steps viewport offset W (Fin vw) = Fin (of_int k) \<and> 0 \<le> k \<and> k \<le> int W"
proof -
  obtain sv where s: "js_div (Fin (of_nat W)) (Fin vw) = Fin sv"
    using scale_nonneg[OF assms(1,3)] by blast
  have "js_mul (js_sub viewport offset) (Fin sv) \<noteq> NaN"
    using assms(2) by (rule mul_not_NaN)
  then show ?thesis
    unfolding mapToCanvas_steps_def Let_def s by (rule clamp_round_range)
qed

lemma sub_nonpos:
  assumes "js_finite viewport" "js_finite offset" "js_value viewport \<le> js_value offset"
    and "js_finite (js_sub viewport offset)"
  shows "js_sub viewport offset = NZero \<or> (\<exists>v. js_sub viewport offset = Fin v \<and> v \<le> 0)"
proof (cases "js_value viewport - js_value offset = 0")
  case True
  then show ?thesis using assms(1,2)
    by (cases viewport; cases offset) (simp_all add: js_sub_def)
next
  case False
  then have q: "js_value viewport - js_value offset < 0" using assms(3) by simp
  have d: "js_sub viewport offset = rnd (js_value viewport - js_value offset)"
    using False assms(1,2) by (cases viewport; cases offset) (simp_all add: js_sub_def)
  show ?thesis using rnd_neg[OF q] assms(4) unfolding d by auto
qed

lemma mul_nonpos:
  assumes "a = NZero \<or> (\<exists>v. a = Fin v \<and> v \<le> 0)" and "0 \<le> sv"
  shows "js_mul a (Fin sv) = NInf \<or> js_mul a (Fin sv) = NZero
         \<or> (\<exists>v. js_mul a (Fin sv) = Fin v \<and> v \<le> 0)"
proof -
  consider "a = NZero" | v where "a = Fin v" "v \<le> 0" using assms(1) by blast
  then show ?thesis
  proof cases
    case 1
    then show ?thesis by (simp add: js_mul_def signed_zero_def)
  next
    case 2
    show ?thesis
    proof (cases "v * sv = 0")
      case True
      then show ?thesis using 2 by (simp add: js_mul_def signed_zero_def)
    next
      case False
      have "v * sv \<le> 0" using 2(2) assms(2) by (simp add: mult_le_0_iff)
      with False have q: "v * sv < 0" by (rule order.not_eq_order_implies_strict)
      have "js_mul a (Fin sv) = rnd (v * sv)" using 2(1) False by (simp add: js_mul_def)
      then show ?thesis using rnd_neg[OF q] by auto
    qed
  qed
qed

lemma steps_low:
  assumes "0 < vw"
    and "js_finite viewport" "js_finite offset" "js_value viewport \<le> js_value offset"
    and "js_finite (js_sub viewport offset)"
    and "js_finite (js_div (Fin (of_nat W)) (Fin vw))"
  shows "mapToCanvas_steps viewport offset W (Fin vw) = Fin 0"
proof -
  obtain sv where s: "js_div (Fin (of_nat W)) (Fin vw) = Fin sv" "0 \<le> sv"
    using scale_nonneg[OF assms(1,6)] by blast
  have "js_sub viewport offset = NZero \<or> (\<exists>v. js_sub viewport offset = Fin v \<and> v \<le> 0)"
    using assms(2-5) by (rule sub_nonpos)
  then have "js_mul (js_sub viewport offset) (Fin sv) = NInf
        \<or> js_mul (js_sub viewport offset) (Fin sv) = NZero
        \<or> (\<exists>v. js_mul (js_sub viewport offset) (Fin sv) = Fin v \<and> v \<le> 0)"
    using s(2) by (rule mul_nonpos)
  then show ?thesis
    unfolding mapToCanvas_steps_def Let_def s(1) by (rule clamp_round_low)
qed

lemma three_roundings:
  assumes "W < 2 ^ 31"
  shows "rat_of_nat W - 1 / 2 \<le> of_nat W * ((1 - 1 / 2 ^ 51) * ((1 - 1 / 2 ^ 51) * (1 - 1 / 2 ^ 51)))"
proof -
  let ?c = "(1 - 1 / 2 ^ 51) * ((1 - 1 / 2 ^ 51) * (1 - 1 / 2 ^ 51)) :: rat"
  have c: "1 - ?c \<le> 3 / 2 ^ 51" by simp
  have w: "rat_of_nat W \<le> 2 ^ 31"
    using assms by (metis less_imp_le of_nat_le_iff of_nat_numeral of_nat_power)
  have "rat_of_nat W * (1 - ?c) \<le> 2 ^ 31 * (3 / 2 ^ 51)"
    using c w by (intro mult_mono) simp_all
  also have "\<dots> \<le> 1 / 2" by simp
  finally have "rat_of_nat W * (1 - ?c) \<le> 1 / 2" .
  then show ?thesis by (simp add: algebra_simps)
qed

lemma steps_high:
  assumes "0 < vw" "vw < 2 ^ 1024" "W < 2 ^ 31"
    and "js_finite viewport" "js_finite offset" "js_value offset + vw \<le> js_value viewport"
    and "js_finite (js_sub viewport offset)"
    and "js_finite (js_div (Fin (of_nat W)) (Fin vw))"
  shows "mapToCanvas_steps viewport offset W (Fin vw) = Fin (of_nat W)"
proof (cases "W = 0")
  case True
  have "mapToCanvas_steps viewport offset W (Fin vw) = Fin 0"
  proof -
    have s: "js_div (Fin (of_nat W)) (Fin vw) = Fin 0"
      using True assms(1) by (simp add: js_div_def signed_zero_def)
    have q: "0 < js_value viewport - js_value offset" using assms(1,6) by simp
    then have d: "js_sub viewport offset = rnd (js_value viewport - js_value offset)"
      using assms(4,5) by (cases viewport; cases offset) (simp_all add: js_sub_def)
    obtain ra where ra: "js_sub viewport offset = Fin ra" "0 \<le> ra"
      using rnd_pos[OF q] assms(7) unfolding d by auto
    have m: "js_mul (Fin ra) (Fin 0) = Fin 0"
      using ra(2) by (simp add: js_mul_def signed_zero_def)
    have "Fin 0 = NInf \<or> Fin 0 = NZero \<or> (\<exists>v. Fin 0 = Fin v \<and> v \<le> 0)" by simp
    then show ?thesis
      unfolding mapToCanvas_steps_def Let_def s ra(1) m by (rule clamp_round_low)
  qed
  then show ?thesis using True by simp
next
  case False
  let ?k = "1 - 1 / 2 ^ 51 :: rat"
  let ?w = "rat_of_nat W"
  have k: "0 < ?k" by simp
  have w1: "1 \<le> ?w" using False by (simp add: Suc_leI)
  have qs: "0 < ?w / vw" using False assms(1) by simp
  have ds: "js_div (Fin ?w) (Fin vw) = rnd (?w / vw)"
    using False assms(1) by (simp add: js_div_def)
  have "?w / vw < 2 ^ 1024"
    using rnd_finite_bound[OF qs] assms(8) unfolding ds by simp
  then have "?w < 2 ^ 1024 * vw" using assms(1) by (simp add: pos_divide_less_eq)
  then have "1 < 2 ^ 1024 * vw" using w1 by simp
  then have vlow: "1 / 2 ^ 1024 \<le> vw" by (simp add: field_simps)
  have "1 / 2 ^ 1024 \<le> 1 / vw"
    using assms(1,2) by (simp add: frac_le less_imp_le)
  also have "1 / vw \<le> ?w / vw" using w1 assms(1) by (simp add: divide_right_mono)
  finally have slow: "1 / 2 ^ 1024 \<le> ?w / vw" .
  obtain sv where sv: "js_div (Fin ?w) (Fin vw) = Fin sv" "?w / vw * ?k \<le> sv"
    using rnd_lower[OF slow] assms(8) unfolding ds by auto
  let ?q = "js_value viewport - js_value offset"
  have qv: "vw \<le> ?q" using assms(6) by simp
  then have q0: "?q \<noteq> 0" using assms(1) by simp
  have da: "js_sub viewport offset = rnd ?q"
    using q0 assms(4,5) by (cases viewport; cases offset) (simp_all add: js_sub_def)
  have "1 / 2 ^ 1024 \<le> ?q" using vlow qv by simp
  then obtain ra where ra: "js_sub viewport offset = Fin ra" "?q * ?k \<le> ra"
    using rnd_lower[of ?q] assms(7) unfolding da by auto
  have ra_low: "vw * ?k \<le> ra"
  proof -
    have "vw * ?k \<le> ?q * ?k" using qv k by (intro mult_right_mono) simp_all
    then show ?thesis using ra(2) by simp
  qed
  have prod: "?w * (?k * ?k) \<le> ra * sv"
  proof -
    have "(vw * ?k) * (?w / vw * ?k) \<le> ra * sv"
      using ra_low sv(2) assms(1) k by (intro mult_mono) simp_all
    moreover have "(vw * ?k) * (?w / vw * ?k) = ?w * (?k * ?k)"
      using assms(1) by simp
    ultimately show ?thesis by simp
  qed
  have kk: "1 / 2 ^ 1024 \<le> ?w * (?k * ?k)"
  proof -
    have "1 * (?k * ?k) \<le> ?w * (?k * ?k)" using w1 by (intro mult_right_mono) simp_all
    moreover have "(1 / 2 ^ 1024 :: rat) \<le> 1 * (?k * ?k)" by simp
    ultimately show ?thesis by (rule order_trans[rotated])
  qed
  then have plow: "1 / 2 ^ 1024 \<le> ra * sv" using prod by (rule order_trans)
  then have "0 < ra * sv" by (rule less_le_trans[rotated]) simp
  then have p0: "ra * sv \<noteq> 0" by (rule less_imp_neq[THEN not_sym])
  have dm: "js_mul (Fin ra) (Fin sv) = rnd (ra * sv)" using p0 by (simp add: js_mul_def)
  have "rnd (ra * sv) = PInf \<or> (\<exists>v. rnd (ra * sv) = Fin v \<and> ?w - 1 / 2 \<le> v)"
  proof -
    consider "rnd (ra * sv) = PInf" | r where "rnd (ra * sv) = Fin r" "ra * sv * ?k \<le> r"
      using rnd_lower[OF plow] by blast
    then show ?thesis
    proof cases
      case 1
      then show ?thesis by simp
    next
      case 2
      have "?w * (?k * ?k) * ?k \<le> ra * sv * ?k" using prod k by (intro mult_right_mono) simp_all
      moreover have "?w - 1 / 2 \<le> ?w * (?k * (?k * ?k))" using assms(3) by (rule three_roundings)
      ultimately have "?w - 1 / 2 \<le> r" using 2(2) by (simp add: mult.assoc)
      then show ?thesis using 2(1) by simp
    qed
  qed
  then show ?thesis
    unfolding mapToCanvas_steps_def Let_def sv(1) ra(1) dm by (rule clamp_round_high)
qed

lemma sub_finite: "js_finite (js_sub x y) \<Longrightarrow> js_finite x \<and> js_finite y"
  by (cases x; cases y) (simp_all add: js_sub_def)

lemma getCanvasCoordinates_steps:
  "getCanvasCoordinates cv clientX clientY =
     \<lparr>coord_x = mapToCanvas_steps clientX (rect_left cv) (width cv) (rect_width cv),
      coord_y = mapToCanvas_steps clientY (rect_top cv) (height cv) (rect_height cv)\<rparr>"
  by (simp add: getCanvasCoordinates_def mapToCanvas_steps_def Let_def)

lemma floor_rat_divide_numeral:
  "\<lfloor>numeral a / numeral b :: rat\<rfloor> = numeral a div numeral b"
  using floor_divide_of_int_eq[of "numeral a" "numeral b", where ?'a = rat] by simp

lemma div_600_112: "js_div (Fin 600) (Fin 112) = Fin (6031606643799771 / 1125899906842624)"
proof -
  have "rnd (600 / 112) = Fin (6031606643799771 / 1125899906842624)"
    by (rule rnd_eval[where e = 2 and n = 6031606643799771])
       (simp_all add: power_int_def power_divide)
  then show ?thesis by (simp add: js_div_def)
qed

lemma div_300_56: "js_div (Fin 300) (Fin 56) = Fin (6031606643799771 / 1125899906842624)"
proof -
  have "rnd (300 / 56) = Fin (6031606643799771 / 1125899906842624)"
    by (rule rnd_eval[where e = 2 and n = 6031606643799771])
       (simp_all add: power_int_def power_divide)
  then show ?thesis by (simp add: js_div_def)
qed

lemma mul_21_scale:
  "js_mul (Fin 21) (Fin (6031606643799771 / 1125899906842624))
     = Fin (7916483719987199 / 70368744177664)"
proof -
  have "rnd (21 * (6031606643799771 / 1125899906842624)) = Fin (7916483719987199 / 70368744177664)"
    by (rule rnd_eval[where e = 6 and n = 7916483719987199])
       (simp_all add: power_int_def power_divide)
  then show ?thesis by (simp add: js_mul_def)
qed

lemma div_overflow: "js_div (Fin 800) (Fin (1 / 2 ^ 1074)) = PInf"
proof -
  have "rnd (800 / (1 / 2 ^ 1074)) = PInf" by (rule rnd_overflow) simp
  then show ?thesis by (simp add: js_div_def)
qed

lemma sub_overflow: "js_sub (Fin (2 ^ 1023)) (Fin (- (2 ^ 1023))) = PInf"
proof -
  have "rnd (2 ^ 1023 - - (2 ^ 1023)) = PInf" by (rule rnd_overflow) simp
  then show ?thesis by (simp add: js_sub_def)
qed

text \<open>
  C1, as the code has it. The result is the coordinate of section 4.2 computed on
  doubles, the scale factor first; where the bounding box has a positive rendered
  width and height and neither a scale factor nor a pointer offset overflows, it is a
  pair of integers in \<open>[0, internalWidth] \<times> [0, internalHeight]\<close> for every pointer
  position, a position left of (above) the box maps to 0 and one right of (below) it
  to the internal width (height).
\<close>

theorem getCanvasCoordinates_steps_range:
  assumes "rect_width cv = Fin vw" and "0 < vw" and "vw < 2 ^ 1024"
    and "rect_height cv = Fin vh" and "0 < vh" and "vh < 2 ^ 1024"
    and "width cv < 2 ^ 31" and "height cv < 2 ^ 31"
    and "js_finite (js_sub clientX (rect_left cv))"
    and "js_finite (js_sub clientY (rect_top cv))"
    and "js_finite (js_div (Fin (of_nat (width cv))) (rect_width cv))"
    and "js_finite (js_div (Fin (of_nat (height cv))) (rect_height cv))"
  shows "getCanvasCoordinates cv clientX clientY =
           \<lparr>coord_x = mapToCanvas_steps clientX (rect_left cv) (width cv) (rect_width cv),
            coord_y = mapToCanvas_steps clientY (rect_top cv) (height cv) (rect_height cv)\<rparr>
       \<and> (\<exists>kx ky. getCanvasCoordinates cv clientX clientY =
                     \<lparr>coord_x = Fin (of_int kx), coord_y = Fin (of_int ky)\<rparr>
                   \<and> 0 \<le> kx \<and> kx \<le> int (width cv) \<and> 0 \<le> ky \<and> ky \<le> int (height cv))
       \<and> (js_value clientX \<le> js_value (rect_left cv) \<longrightarrow>
            coord_x (getCanvasCoordinates cv clientX clientY) = Fin 0)
       \<and> (js_value (rect_left cv) + vw \<le> js_value clientX \<longrightarrow>
            coord_x (getCanvasCoordinates cv clientX clientY) = Fin (of_nat (width cv)))
       \<and> (js_value clientY \<le> js_value (rect_top cv) \<longrightarrow>
            coord_y (getCanvasCoordinates cv clientX clientY) = Fin 0)
       \<and> (js_value (rect_top cv) + vh \<le> js_value clientY \<longrightarrow>
            coord_y (getCanvasCoordinates cv clientX clientY) = Fin (of_nat (height cv)))"
proof -
  note fx = sub_finite[OF assms(9)] and fy = sub_finite[OF assms(10)]
  have sx: "js_finite (js_div (Fin (of_nat (width cv))) (Fin vw))"
    using assms(11) by (simp add: assms(1))
  have sy: "js_finite (js_div (Fin (of_nat (height cv))) (Fin vh))"
    using assms(12) by (simp add: assms(4))
  obtain kx where kx: "mapToCanvas_steps clientX (rect_left cv) (width cv) (Fin vw) = Fin (of_int kx)"
      "0 \<le> kx" "kx \<le> int (width cv)"
    using steps_range[OF assms(2) assms(9) sx] by blast
  obtain ky where ky: "mapToCanvas_steps clientY (rect_top cv) (height cv) (Fin vh) = Fin (of_int ky)"
      "0 \<le> ky" "ky \<le> int (height cv)"
    using steps_range[OF assms(5) assms(10) sy] by blast
  have range: "\<exists>kx ky. getCanvasCoordinates cv clientX clientY =
                     \<lparr>coord_x = Fin (of_int kx), coord_y = Fin (of_int ky)\<rparr>
                   \<and> 0 \<le> kx \<and> kx \<le> int (width cv) \<and> 0 \<le> ky \<and> ky \<le> int (height cv)"
    using kx ky by (simp add: getCanvasCoordinates_steps assms(1,4))
  have lowx: "js_value clientX \<le> js_value (rect_left cv) \<longrightarrow>
            coord_x (getCanvasCoordinates cv clientX clientY) = Fin 0"
    using steps_low[OF assms(2) _ _ _ assms(9) sx] fx
    by (simp add: getCanvasCoordinates_steps assms(1))
  have highx: "js_value (rect_left cv) + vw \<le> js_value clientX \<longrightarrow>
            coord_x (getCanvasCoordinates cv clientX clientY) = Fin (of_nat (width cv))"
    using steps_high[OF assms(2,3,7) _ _ _ assms(9) sx] fx
    by (simp add: getCanvasCoordinates_steps assms(1))
  have lowy: "js_value clientY \<le> js_value (rect_top cv) \<longrightarrow>
            coord_y (getCanvasCoordinates cv clientX clientY) = Fin 0"
    using steps_low[OF assms(5) _ _ _ assms(10) sy] fy
    by (simp add: getCanvasCoordinates_steps assms(4))
  have highy: "js_value (rect_top cv) + vh \<le> js_value clientY \<longrightarrow>
            coord_y (getCanvasCoordinates cv clientX clientY) = Fin (of_nat (height cv))"
    using steps_high[OF assms(5,6,8) _ _ _ assms(10) sy] fy
    by (simp add: getCanvasCoordinates_steps assms(4))
  show ?thesis
    using range lowx highx lowy highy getCanvasCoordinates_steps[of cv clientX clientY]
    by blast
qed

text \<open>
  An 800 x 600 canvas rendered at 400 x 300 with its corner at (10, 20): a point left of
  and below the box goes to (0, 600), a point right of and above it to (800, 0), a point
  inside the box is scaled by 2.
\<close>

theorem getCanvasCoordinates_steps_range_witness:
  "getCanvasCoordinates sample_canvas (Fin (- 5)) (Fin 1000) = \<lparr>coord_x = Fin 0, coord_y = Fin 600\<rparr>
   \<and> getCanvasCoordinates sample_canvas (Fin 1000) (Fin (- 5)) = \<lparr>coord_x = Fin 800, coord_y = Fin 0\<rparr>
   \<and> getCanvasCoordinates sample_canvas (Fin 110) (Fin 95) = \<lparr>coord_x = Fin 200, coord_y = Fin 150\<rparr>"
proof -
  have box: "rect_width sample_canvas = Fin 400" "(0::rat) < 400" "(400::rat) < 2 ^ 1024"
      "rect_height sample_canvas = Fin 300" "(0::rat) < 300" "(300::rat) < 2 ^ 1024"
      "width sample_canvas < 2 ^ 31" "height sample_canvas < 2 ^ 31"
    by (simp_all add: sample_canvas_def)
  have scale: "js_finite (js_div (Fin (of_nat (width sample_canvas))) (rect_width sample_canvas))"
      "js_finite (js_div (Fin (of_nat (height sample_canvas))) (rect_height sample_canvas))"
    by (simp_all add: sample_canvas_def js_div_def)
  have off: "js_finite (js_sub (Fin (- 5)) (rect_left sample_canvas))"
      "js_finite (js_sub (Fin 1000) (rect_top sample_canvas))"
      "js_finite (js_sub (Fin 1000) (rect_left sample_canvas))"
      "js_finite (js_sub (Fin (- 5)) (rect_top sample_canvas))"
      "js_finite (js_sub (Fin 110) (rect_left sample_canvas))"
      "js_finite (js_sub (Fin 95) (rect_top sample_canvas))"
    by (simp_all add: sample_canvas_def js_sub_def)
  note a = getCanvasCoordinates_steps_range[OF box off(1,2) scale]
  note b = getCanvasCoordinates_steps_range[OF box off(3,4) scale]
  note c = getCanvasCoordinates_steps_range[OF box off(5,6) scale]
  have ax: "coord_x (getCanvasCoordinates sample_canvas (Fin (- 5)) (Fin 1000)) = Fin 0"
    using a[THEN conjunct2, THEN conjunct2, THEN conjunct1] by (simp add: sample_canvas_def)
  have ay: "coord_y (getCanvasCoordinates sample_canvas (Fin (- 5)) (Fin 1000)) = Fin 600"
    using a[THEN conjunct2, THEN conjunct2, THEN conjunct2, THEN conjunct2, THEN conjunct2]
    by (simp add: sample_canvas_def)
  have bx: "coord_x (getCanvasCoordinates sample_canvas (Fin 1000) (Fin (- 5))) = Fin 800"
    using b[THEN conjunct2, THEN conjunct2, THEN conjunct2, THEN conjunct1]
    by (simp add: sample_canvas_def)
  have by': "coord_y (getCanvasCoordinates sample_canvas (Fin 1000) (Fin (- 5))) = Fin 0"
    using b[THEN conjunct2, THEN conjunct2, THEN conjunct2, THEN conjunct2, THEN conjunct1]
    by (simp add: sample_canvas_def)
  have c': "getCanvasCoordinates sample_canvas (Fin 110) (Fin 95) = \<lparr>coord_x = Fin 200, coord_y = Fin 150\<rparr>"
    using c[THEN conjunct1]
    by (simp add: sample_canvas_def mapToCanvas_steps_def Let_def js_sub_def js_div_def
        js_mul_def js_min_Fin js_max_Fin floor_rat_divide_numeral)
  have a': "getCanvasCoordinates sample_canvas (Fin (- 5)) (Fin 1000) = \<lparr>coord_x = Fin 0, coord_y = Fin 600\<rparr>"
    using ax ay by (cases "getCanvasCoordinates sample_canvas (Fin (- 5)) (Fin 1000)") simp
  have b': "getCanvasCoordinates sample_canvas (Fin 1000) (Fin (- 5)) = \<lparr>coord_x = Fin 800, coord_y = Fin 0\<rparr>"
    using bx by' by (cases "getCanvasCoordinates sample_canvas (Fin 1000) (Fin (- 5))") simp
  show ?thesis using a' b' c' by (intro conjI)
qed

text \<open>
  The reference definition of C1 in exact arithmetic is not what the code computes. A
  600 x 300 canvas rendered at 112 x 56: the scale factor 600 / 112 is rounded down to a
  double, its product with 21 is 112.49999999999999, and the point (21, 21) goes to
  (112, 112), where the reference definition gives (113, 113). A rendered width of
  \<open>2 ^ (- 1074)\<close>, or a canvas of width 0 with a pointer offset beyond the double
  range, gives NaN.
\<close>

theorem getCanvasCoordinates_reference_counterexample:
  "getCanvasCoordinates
     \<lparr>rect_left = Fin 0, rect_top = Fin 0, rect_width = Fin 112, rect_height = Fin 56,
      width = 600, height = 300\<rparr> (Fin 21) (Fin 21)
     = \<lparr>coord_x = Fin 112, coord_y = Fin 112\<rparr>
   \<and> mapToCanvas_axis 21 0 600 112 = 113
   \<and> mapToCanvas_axis 21 0 300 56 = 113
   \<and> coord_x (getCanvasCoordinates
        \<lparr>rect_left = Fin 0, rect_top = Fin 0, rect_width = Fin (1 / 2 ^ 1074),
         rect_height = Fin 300, width = 800, height = 600\<rparr> (Fin 0) (Fin 0)) = NaN
   \<and> coord_x (getCanvasCoordinates
        \<lparr>rect_left = Fin (- (2 ^ 1023)), rect_top = Fin 0, rect_width = Fin 400,
         rect_height = Fin 300, width = 0, height = 600\<rparr> (Fin (2 ^ 1023)) (Fin 0)) = NaN"
proof -
  have a: "getCanvasCoordinates
     \<lparr>rect_left = Fin 0, rect_top = Fin 0, rect_width = Fin 112, rect_height = Fin 56,
      width = 600, height = 300\<rparr> (Fin 21) (Fin 21)
     = \<lparr>coord_x = Fin 112, coord_y = Fin 112\<rparr>"
    by (simp add: getCanvasCoordinates_def Let_def div_600_112 div_300_56 js_sub_def
        mul_21_scale js_min_Fin js_max_Fin floor_rat_divide_numeral)
  have b: "mapToCanvas_axis 21 0 600 112 = 113" "mapToCanvas_axis 21 0 300 56 = 113"
    by (simp_all add: mapToCanvas_axis_def clamp_def round_def floor_rat_divide_numeral)
  have c: "coord_x (getCanvasCoordinates
        \<lparr>rect_left = Fin 0, rect_top = Fin 0, rect_width = Fin (1 / 2 ^ 1074),
         rect_height = Fin 300, width = 800, height = 600\<rparr> (Fin 0) (Fin 0)) = NaN"
    using div_overflow
    by (simp add: getCanvasCoordinates_def Let_def js_sub_def js_mul_def js_min_def js_max_def)
  have d: "coord_x (getCanvasCoordinates
        \<lparr>rect_left = Fin (- (2 ^ 1023)), rect_top = Fin 0, rect_width = Fin 400,
         rect_height = Fin 300, width = 0, height = 600\<rparr> (Fin (2 ^ 1023)) (Fin 0)) = NaN"
    using sub_overflow
    by (simp add: getCanvasCoordinates_def Let_def js_div_def js_mul_def js_min_def js_max_def
        signed_zero_def)
  show ?thesis using a b c d by (intro conjI)
qed

section \<open>Notification and gamepad polling: auxiliary facts\<close>

lemma notify_map_filter:
  "notify h f subs = map (\<lambda>r. Invoke r f) (filter (\<lambda>r. h r (handler_of f)) subs)"
  by (induction subs) simp_all





lemma count_notify_Invoke:
  "count_list (notify h f subs) (Invoke r g) =
     (if g = f \<and> h r (handler_of f) then count_list subs r else 0)"
  by (induction subs) auto

lemma count_broadcast_Invoke:
  "count_list (broadcast h s f) (Invoke r g) =
     (if g = f \<and> h r (handler_of f) then count_list (subscribers s) r else 0)"
  by (simp add: broadcast_def count_notify_Invoke)





lemma buttons_snapshot_only:
  "lastGamepadButtons s' = lastGamepadButtons s \<Longrightarrow> subscribers s' = subscribers s \<Longrightarrow>
   updateGamepad_buttons h s' gp i = updateGamepad_buttons h s gp i"
proof (induction h s gp i rule: updateGamepad_buttons.induct)
  case (1 h s gp i)
  show ?case
  proof (cases "i < length (buttons gp)")
    case True
    then show ?thesis
      using "1.IH"[OF True refl refl "1.prems"] "1.prems"
      by (subst (1 2) updateGamepad_buttons.simps)
         (simp add: handleGamepadButton_def broadcast_def)
  next
    case False
    then show ?thesis
      by (subst (1 2) updateGamepad_buttons.simps) simp
  qed
qed


lemma slots_empty:
  "\<forall>g\<in>set gps. g = None \<Longrightarrow> updateGamepad_slots h s gps = (s, [])"
  by (induction gps) simp_all


lemma device_state:
  "fst (updateGamepad_device h s gp) =
     s\<lparr>gamepad := Some gp, lastGamepadAxes := axes gp, lastGamepadButtons := buttons gp\<rparr>"
  by (simp add: updateGamepad_device_def Let_def)



section \<open>Gamepad polling: buttons and axes\<close>














text \<open>
  C8. When the poll answers with nothing, or with empty slots only, \<open>update()\<close> leaves
  every field as it was and does nothing to the outside.
\<close>

theorem update_without_gamepad:
  "update h s None = (s, [])
   \<and> ((\<forall>g\<in>set gps. g = None) \<longrightarrow> update h s (Some gps) = (s, []))"
  by (simp add: update_def updateGamepad_def slots_empty)

theorem update_without_gamepad_witness:
  "set [None, None, None, None :: gamepad option] = {None}
   \<and> update sample_heap sample_input None = (sample_input, [])
   \<and> update sample_heap sample_input (Some [None, None, None, None]) = (sample_input, [])"
  using update_without_gamepad[of sample_heap sample_input "[None, None, None, None]"]
  by simp





section \<open>Subscriber list and effects: auxiliary facts\<close>

lemma includes_set: "array_includes xs v \<longleftrightarrow> v \<in> set xs"
  by (induction xs) auto

lemma indexOf_found: "indexOf xs v > - 1 \<longleftrightarrow> v \<in> set xs"
  by (induction xs) (auto simp: Let_def)

lemma indexOf_nonneg: "v \<in> set xs \<Longrightarrow> 0 \<le> indexOf xs v"
  using indexOf_found[of xs v] by simp

lemma splice1_indexOf: "v \<in> set xs \<Longrightarrow> splice1 xs (nat (indexOf xs v)) = remove1 v xs"
proof (induction xs)
  case Nil
  then show ?case by simp
next
  case (Cons x xs)
  show ?case
  proof (cases "x = v")
    case True
    then show ?thesis by (simp add: splice1_def)
  next
    case False
    then have m: "v \<in> set xs" using Cons.prems by simp
    then have "0 \<le> indexOf xs v" by (rule indexOf_nonneg)
    then have "nat (indexOf xs v + 1) = Suc (nat (indexOf xs v))" by simp
    then show ?thesis
      using False Cons.IH[OF m] indexOf_found[of xs v] m
      by (simp add: splice1_def Let_def)
  qed
qed

lemma unsubscribe_remove1:
  "unsubscribe s r = s\<lparr>subscribers := remove1 r (subscribers s)\<rparr>"
proof (cases "r \<in> set (subscribers s)")
  case True
  then show ?thesis
    using indexOf_found[of "subscribers s" r]
    by (simp add: unsubscribe_def Let_def splice1_indexOf)
next
  case False
  then show ?thesis
    using indexOf_found[of "subscribers s" r]
    by (simp add: unsubscribe_def Let_def remove1_idem)
qed

lemma subscribe_state:
  "fst (subscribe s r) =
     (if r \<in> set (subscribers s) then s else s\<lparr>subscribers := subscribers s @ [r]\<rparr>)"
  by (simp add: subscribe_def includes_set)

lemma count_distinct: "distinct xs \<Longrightarrow> count_list xs v = (if v \<in> set xs then 1 else 0)"
  by (induction xs) auto

lemma slots_subscribers: "subscribers (fst (updateGamepad_slots h s gps)) = subscribers s"
  by (induction h s gps rule: updateGamepad_slots.induct) (simp_all add: device_state)


lemma update_subscribers: "subscribers (fst (update h s g)) = subscribers s"
  by (cases g) (simp_all add: update_def updateGamepad_def slots_subscribers)


lemma listener_subscribers: "subscribers (fst (listener h s ev)) = subscribers s"
  by (cases ev)
     (simp_all add: handleKeyDown_def handleKeyUp_def handleMouseMove_def handleMouseDown_def
        handleMouseUp_def handleMouseClick_def handleMouseEnter_def handleContextMenu_def
        handleTouchStart_def handleTouchMove_def handleTouchEnd_def handleGamepadConnected_def
        Let_def split: list.splits)


lemma deliver_subscribers: "subscribers (fst (deliver h s ev)) = subscribers s"
  by (simp add: deliver_def listener_subscribers)


lemma step_distinct:
  assumes "distinct (subscribers s)"
  shows "distinct (subscribers (fst (step h s op)))"
proof (cases op)
  case (HandleUnsubscribe hdl)
  then show ?thesis
    using assms by (cases hdl) (simp add: unsubscribe_remove1)
qed (use assms in \<open>simp_all add: subscribe_state unsubscribe_remove1 update_subscribers deliver_subscribers
       destroy_def\<close>)


section \<open>The loop over the live subscriber array\<close>

lemma seen_unchanged_refl: "seen_unchanged a f w w"
  by (simp add: seen_unchanged_def)

lemma notify_live_quiet:
  assumes q: "quiet b a f w0"
    and no: "\<forall>r\<in>set (array_content w0 a). members w0 r (handler_of f) \<noteq> Other"
  shows "seen_unchanged a f w0 w \<Longrightarrow> i \<le> length (array_content w0 a) \<Longrightarrow>
     \<exists>w'. notify_live b f a i w t =
            Some (w', t @ map (\<lambda>r. Invoke r f)
                          (filter (\<lambda>r. members w0 r (handler_of f) = Method)
                             (drop i (array_content w0 a))), Returns)
          \<and> seen_unchanged a f w0 w'"
proof (induction "length (array_content w0 a) - i" arbitrary: i w t)
  case 0
  then have "\<not> i < length (array_content w a)" by (simp add: seen_unchanged_def)
  then have "notify_live b f a i w t = Some (w, t, Returns)"
    by (subst notify_live.simps) simp
  then show ?case using 0 by simp
next
  case (Suc n)
  let ?xs = "array_content w0 a"
  let ?r = "?xs ! i"
  have i: "i < length ?xs" using Suc.hyps(2) by simp
  have same: "array_content w a = ?xs" using Suc.prems(1) by (simp add: seen_unchanged_def)
  have r: "?r \<in> set ?xs" using i by simp
  have m: "members w ?r (handler_of f) = members w0 ?r (handler_of f)"
    using Suc.prems(1) r by (simp add: seen_unchanged_def)
  have d: "drop i ?xs = ?r # drop (Suc i) ?xs" using i by (simp add: Cons_nth_drop_Suc)
  have n: "n = length ?xs - Suc i" using Suc.hyps(2) by simp
  have le: "Suc i \<le> length ?xs" using i by simp
  show ?case
  proof (cases "members w0 ?r (handler_of f)")
    case Absent
    have "notify_live b f a i w t = notify_live b f a (Suc i) w t"
      using i same m Absent by (subst notify_live.simps) simp
    then show ?thesis
      using Suc.hyps(1)[OF n Suc.prems(1) le, of t] Absent by (simp add: d)
  next
    case Method
    have k: "seen_unchanged a f w0 (fst (b ?r f w))" "snd (b ?r f w) = Returns"
      using q r Method Suc.prems(1) by (simp_all add: quiet_def)
    have "notify_live b f a i w t
            = notify_live b f a (Suc i) (fst (b ?r f w)) (t @ [Invoke ?r f])"
      using i same m Method k(2)
      by (subst notify_live.simps) (auto split: prod.splits completion.splits)
    then show ?thesis
      using Suc.hyps(1)[OF n k(1) le, of "t @ [Invoke ?r f]"] Method by (simp add: d)
  next
    case Other
    then show ?thesis using no r by simp
  qed
qed

lemma broadcast_live_quiet:
  assumes "quiet b (array_id w) f w"
    and "\<forall>r\<in>set (subscribers (input w)). members w r (handler_of f) \<noteq> Other"
  shows "\<exists>w'. broadcast_live b w f =
            Some (w', Broadcast f # map (\<lambda>r. Invoke r f)
                          (filter (\<lambda>r. members w r (handler_of f) = Method)
                             (subscribers (input w))), Returns)
          \<and> seen_unchanged (array_id w) f w w'"
proof -
  have c: "array_content w (array_id w) = subscribers (input w)"
    by (simp add: array_content_def)
  show ?thesis
    using notify_live_quiet[OF assms(1), of w 0 "[Broadcast f]"] assms(2)
    by (simp add: broadcast_live_def c seen_unchanged_refl)
qed

lemma sample_move:
  "getCanvasCoordinates sample_canvas (Fin 110) (Fin 95) = \<lparr>coord_x = Fin 200, coord_y = Fin 150\<rparr>"
  by (simp add: getCanvasCoordinates_def Let_def sample_canvas_def js_sub_def js_div_def
      js_mul_def js_min_Fin js_max_Fin floor_rat_divide_numeral)

lemma tidying_quiet: "quiet tidying 0 f sample_world"
proof -
  have "seen_unchanged 0 f sample_world (calls_unsubscribe 7 w)"
    if "seen_unchanged 0 f sample_world w" for w
  proof -
    have a: "array_content w 0 = [1, 2, 3]"
      using that
      by (simp add: seen_unchanged_def array_content_def sample_world_def sample_input_def)
    have "array_content (calls_unsubscribe 7 w) 0 = array_content w 0"
      using a
      by (auto simp: array_content_def calls_unsubscribe_def unsubscribe_remove1
          split: if_splits)
    moreover have "members (calls_unsubscribe 7 w) = members w"
      by (simp add: calls_unsubscribe_def)
    ultimately show ?thesis using that by (simp add: seen_unchanged_def)
  qed
  then show ?thesis by (simp add: quiet_def tidying_def)
qed

lemma sample_no_other:
  "\<forall>r\<in>set (subscribers (input sample_world)). members sample_world r (handler_of f) \<noteq> Other"
  by (simp add: sample_world_def)

section \<open>Dispatch, registration, teardown and the key table\<close>

text \<open>
  C4, for handlers that leave the loop alone. When every handler the broadcast calls
  returns and leaves the subscriber array and the handlers of the subscribed objects as
  they were, and every such handler is a function or absent, the broadcast of a fact
  \<open>f\<close> returns, and it calls, after the mark \<open>Broadcast f\<close>, the handler of every
  subscriber that has the handler named by \<open>f\<close>, in the order of the subscriber list and
  with the arguments of \<open>f\<close>; a subscriber without the handler is not called and nothing
  else happens for it. With no reference twice in the list, a subscriber that has the
  handler is called exactly once. This is what \<open>broadcast\<close> computes. The mouse-move
  handler is such a broadcast of the mapped coordinates.
\<close>

theorem broadcast_live_fan_out:
  assumes "quiet b (array_id w) f w"
    and "\<forall>r\<in>set (subscribers (input w)). members w r (handler_of f) \<noteq> Other"
  shows "effects_of (broadcast_live b w f) =
           Broadcast f # map (\<lambda>r. Invoke r f)
             (filter (\<lambda>r. members w r (handler_of f) = Method) (subscribers (input w)))
       \<and> completion_of (broadcast_live b w f) = Returns
       \<and> count_list (effects_of (broadcast_live b w f)) (Invoke r g) =
           (if g = f \<and> members w r (handler_of f) = Method
            then count_list (subscribers (input w)) r else 0)
       \<and> (distinct (subscribers (input w)) \<and> r \<in> set (subscribers (input w))
            \<and> members w r (handler_of f) = Method \<longrightarrow>
            count_list (effects_of (broadcast_live b w f)) (Invoke r f) = 1)
       \<and> (members w r (handler_of f) = Absent \<longrightarrow>
            Invoke r g \<notin> set (effects_of (broadcast_live b w f)))
       \<and> effects_of (broadcast_live b w f) =
           broadcast (\<lambda>r n. members w r n = Method) (input w) f
       \<and> handleMouseMove_live b w e =
           broadcast_live b w (MouseMove
             (coord_x (getCanvasCoordinates (canvas (input w)) (mouse_clientX e) (mouse_clientY e)))
             (coord_y (getCanvasCoordinates (canvas (input w)) (mouse_clientX e) (mouse_clientY e))))"
proof -
  let ?h = "\<lambda>r n. members w r n = Method"
  obtain w' where w': "broadcast_live b w f = Some (w', broadcast ?h (input w) f, Returns)"
    using broadcast_live_quiet[OF assms] by (auto simp: broadcast_def notify_map_filter)
  have a: "effects_of (broadcast_live b w f) = broadcast ?h (input w) f"
    and c: "completion_of (broadcast_live b w f) = Returns"
    by (simp_all add: w')
  have l: "broadcast ?h (input w) f =
           Broadcast f # map (\<lambda>r. Invoke r f)
             (filter (\<lambda>r. members w r (handler_of f) = Method) (subscribers (input w)))"
    by (simp add: broadcast_def notify_map_filter)
  have n: "members w r (handler_of f) = Absent \<longrightarrow> Invoke r g \<notin> set (broadcast ?h (input w) f)"
    unfolding l by auto
  have d: "distinct (subscribers (input w)) \<and> r \<in> set (subscribers (input w))
            \<and> members w r (handler_of f) = Method \<longrightarrow>
            count_list (broadcast ?h (input w) f) (Invoke r f) = 1"
    by (simp add: count_broadcast_Invoke count_distinct)
  have m: "handleMouseMove_live b w e =
           broadcast_live b w (MouseMove
             (coord_x (getCanvasCoordinates (canvas (input w)) (mouse_clientX e) (mouse_clientY e)))
             (coord_y (getCanvasCoordinates (canvas (input w)) (mouse_clientX e) (mouse_clientY e))))"
    by (simp add: handleMouseMove_live_def Let_def)
  show ?thesis
    unfolding a c using l n d m count_broadcast_Invoke[of ?h "input w" f r g] by simp
qed

text \<open>
  Subscribers 1 and 2 have \<open>onMouseMove\<close>, subscriber 3 has not, and every handler
  unsubscribes an object that is not subscribed: a move to (110, 95) calls 1, then 2,
  with (200, 150), each once, and does not call 3.
\<close>

theorem broadcast_live_fan_out_witness:
  "effects_of (handleMouseMove_live tidying sample_world
        \<lparr>mouse_clientX = Fin 110, mouse_clientY = Fin 95, mouse_button = 0\<rparr>) =
       [Broadcast (MouseMove (Fin 200) (Fin 150)),
        Invoke 1 (MouseMove (Fin 200) (Fin 150)),
        Invoke 2 (MouseMove (Fin 200) (Fin 150))]
   \<and> completion_of (broadcast_live tidying sample_world (MouseMove (Fin 200) (Fin 150))) = Returns
   \<and> count_list (effects_of (broadcast_live tidying sample_world (MouseMove (Fin 200) (Fin 150))))
        (Invoke 2 (MouseMove (Fin 200) (Fin 150))) = 1
   \<and> Invoke 3 (MouseMove (Fin 200) (Fin 150))
        \<notin> set (effects_of (broadcast_live tidying sample_world (MouseMove (Fin 200) (Fin 150))))"
proof -
  have q: "quiet tidying (array_id sample_world) (MouseMove (Fin 200) (Fin 150)) sample_world"
    using tidying_quiet[of "MouseMove (Fin 200) (Fin 150)"] by (simp add: sample_world_def)
  note t = broadcast_live_fan_out[OF q sample_no_other]
  have s: "subscribers (input sample_world) = [1, 2, 3]"
      "members sample_world = (\<lambda>r n. if sample_heap r n then Method else Absent)"
      "canvas (input sample_world) = sample_canvas"
    by (simp_all add: sample_world_def sample_input_def constructor_def)
  note t2 = t[of 2 "MouseMove (Fin 200) (Fin 150)"
          "\<lparr>mouse_clientX = Fin 110, mouse_clientY = Fin 95, mouse_button = 0\<rparr>"]
  note t3 = t[of 3 "MouseMove (Fin 200) (Fin 150)"
          "\<lparr>mouse_clientX = Fin 110, mouse_clientY = Fin 95, mouse_button = 0\<rparr>"]
  have m: "handleMouseMove_live tidying sample_world
        \<lparr>mouse_clientX = Fin 110, mouse_clientY = Fin 95, mouse_button = 0\<rparr>
      = broadcast_live tidying sample_world (MouseMove (Fin 200) (Fin 150))"
    using t2[THEN conjunct2, THEN conjunct2, THEN conjunct2, THEN conjunct2, THEN conjunct2,
        THEN conjunct2]
    by (simp add: s sample_move)
  have a: "effects_of (broadcast_live tidying sample_world (MouseMove (Fin 200) (Fin 150))) =
       [Broadcast (MouseMove (Fin 200) (Fin 150)),
        Invoke 1 (MouseMove (Fin 200) (Fin 150)),
        Invoke 2 (MouseMove (Fin 200) (Fin 150))]"
    using t2[THEN conjunct1] by (simp add: s sample_heap_def)
  have c: "completion_of (broadcast_live tidying sample_world (MouseMove (Fin 200) (Fin 150)))
      = Returns"
    using t2[THEN conjunct2, THEN conjunct1] .
  have d: "count_list (effects_of (broadcast_live tidying sample_world
        (MouseMove (Fin 200) (Fin 150)))) (Invoke 2 (MouseMove (Fin 200) (Fin 150))) = 1"
    using t2[THEN conjunct2, THEN conjunct2, THEN conjunct2, THEN conjunct1]
    by (simp add: s sample_heap_def)
  have n: "Invoke 3 (MouseMove (Fin 200) (Fin 150))
        \<notin> set (effects_of (broadcast_live tidying sample_world (MouseMove (Fin 200) (Fin 150))))"
    using t3[THEN conjunct2, THEN conjunct2, THEN conjunct2, THEN conjunct2, THEN conjunct1]
    by (simp add: s sample_heap_def)
  show ?thesis
    unfolding m using a c d n by (intro conjI)
qed

text \<open>
  C4 as stated fails for a handler that acts on the class. Subscribers 1, 2 and 3 are
  subscribed and 1 and 2 have \<open>onMouseMove\<close>. When the handler of 1 unsubscribes 1, the
  array is spliced under the running loop: its next step reads index 1, which now holds
  3, and subscriber 2, still subscribed, is never called. When the handler of 1 throws,
  or when \<open>onMouseMove\<close> of 1 is a value that is not a function, the broadcast ends
  there with the exception.
\<close>

theorem broadcast_fan_out_counterexample:
  "broadcast_live unsubscribing sample_world (MouseMove (Fin 200) (Fin 150)) =
     Some (calls_unsubscribe 1 sample_world,
           [Broadcast (MouseMove (Fin 200) (Fin 150)), Invoke 1 (MouseMove (Fin 200) (Fin 150))],
           Returns)
   \<and> subscribers (input sample_world) = [1, 2, 3]
   \<and> members sample_world 2 onMouseMove = Method
   \<and> subscribers (input (calls_unsubscribe 1 sample_world)) = [2, 3]
   \<and> broadcast_live throwing sample_world (MouseMove (Fin 200) (Fin 150)) =
     Some (sample_world,
           [Broadcast (MouseMove (Fin 200) (Fin 150)), Invoke 1 (MouseMove (Fin 200) (Fin 150))],
           Throws)
   \<and> broadcast_live inert
        (sample_world\<lparr>members := (\<lambda>r n. if r = 1 then Other else members sample_world r n)\<rparr>)
        (MouseMove (Fin 200) (Fin 150)) =
     Some (sample_world\<lparr>members := (\<lambda>r n. if r = 1 then Other else members sample_world r n)\<rparr>,
           [Broadcast (MouseMove (Fin 200) (Fin 150))], Throws)"
  by (simp add: broadcast_live_def notify_live.simps array_content_def sample_world_def
      sample_input_def constructor_def sample_heap_def unsubscribing_def throwing_def inert_def
      calls_unsubscribe_def unsubscribe_def splice1_def Let_def)

text \<open>
  C5. In a state whose subscriber list has no reference twice: \<open>subscribe\<close> of a
  reference already in the list changes nothing, \<open>subscribe\<close> of a new one appends it,
  and both return a handle whose \<open>unsubscribe\<close> is \<open>unsubscribe\<close> of that reference;
  afterwards the reference is registered exactly once, also when subscribed twice.
  \<open>unsubscribe\<close> removes the first entry for the reference and is the identity when
  there is none; afterwards the reference is registered zero times and the others as
  before, and a second \<open>unsubscribe\<close>, directly or through the handle, changes nothing.
\<close>

theorem subscribe_unsubscribe_idempotent:
  assumes "distinct (subscribers s)"
  shows "(r \<in> set (subscribers s) \<longrightarrow> fst (subscribe s r) = s)
       \<and> (r \<notin> set (subscribers s) \<longrightarrow>
            fst (subscribe s r) = s\<lparr>subscribers := subscribers s @ [r]\<rparr>)
       \<and> snd (subscribe s r) = Handle r
       \<and> handle_unsubscribe s' (snd (subscribe s r)) = unsubscribe s' r
       \<and> count_list (subscribers (fst (subscribe s r))) r = 1
       \<and> fst (subscribe (fst (subscribe s r)) r) = fst (subscribe s r)
       \<and> unsubscribe s r = s\<lparr>subscribers := remove1 r (subscribers s)\<rparr>
       \<and> (r \<notin> set (subscribers s) \<longrightarrow> unsubscribe s r = s)
       \<and> count_list (subscribers (unsubscribe s r)) r = 0
       \<and> (q \<noteq> r \<longrightarrow> count_list (subscribers (unsubscribe s r)) q = count_list (subscribers s) q)
       \<and> unsubscribe (unsubscribe s r) r = unsubscribe s r
       \<and> count_list (subscribers (unsubscribe (unsubscribe s r) r)) r = 0
       \<and> count_list (subscribers (handle_unsubscribe (handle_unsubscribe s (snd (subscribe s r)))
            (snd (subscribe s r)))) r = 0"
proof -
  have h: "snd (subscribe s r) = Handle r"
    by (simp add: subscribe_def)
  have d1: "distinct (remove1 r (subscribers s))"
    using assms by simp
  have n: "r \<notin> set (remove1 r (subscribers s))"
    using assms by simp
  have twice: "unsubscribe (unsubscribe s r) r = unsubscribe s r"
    using n by (simp add: unsubscribe_remove1 remove1_idem)
  have "count_list (remove1 r (subscribers s)) r = 0"
    using n by (simp only: count_list_0_iff not_False_eq_True)
  then have zero: "count_list (subscribers (unsubscribe s r)) r = 0"
    unfolding unsubscribe_remove1 by simp
  have other: "q \<noteq> r \<longrightarrow> count_list (subscribers (unsubscribe s r)) q = count_list (subscribers s) q"
    using assms d1 by (simp add: unsubscribe_remove1 count_distinct)
  have one: "count_list (subscribers (fst (subscribe s r))) r = 1"
    using assms by (simp add: subscribe_state count_distinct)
  have again: "fst (subscribe (fst (subscribe s r)) r) = fst (subscribe s r)"
    by (simp add: subscribe_state)
  have absent: "r \<notin> set (subscribers s) \<longrightarrow> unsubscribe s r = s"
    by (simp add: unsubscribe_remove1 remove1_idem)
  show ?thesis
    unfolding h handle_unsubscribe.simps twice
    using zero other one again absent unsubscribe_remove1[of s r] subscribe_state[of s r]
    by simp
qed

theorem subscribe_unsubscribe_idempotent_witness:
  "distinct (subscribers sample_input)
   \<and> 2 \<in> set (subscribers sample_input)
   \<and> 7 \<notin> set (subscribers sample_input)
   \<and> fst (subscribe sample_input 2) = sample_input
   \<and> snd (subscribe sample_input 2) = Handle 2
   \<and> subscribers (fst (subscribe sample_input 7)) = [1, 2, 3, 7]
   \<and> subscribers (unsubscribe sample_input 2) = [1, 3]
   \<and> unsubscribe (unsubscribe sample_input 2) 2 = unsubscribe sample_input 2
   \<and> unsubscribe sample_input 7 = sample_input
   \<and> count_list (subscribers (unsubscribe sample_input 2)) 3 = 1"
  using subscribe_unsubscribe_idempotent[of sample_input 2 sample_input 3]
    subscribe_unsubscribe_idempotent[of sample_input 7 sample_input 3]
    subscribe_unsubscribe_idempotent[of "sample_input\<lparr>subscribers := [1, 3]\<rparr>" 2 sample_input 3]
  by (simp add: sample_input_def constructor_def)

text \<open>
  C6. \<open>destroy\<close> empties the subscriber list, the key table and the gamepad snapshot
  (\<open>gamepad\<close>, \<open>lastGamepadButtons\<close>, \<open>lastGamepadAxes\<close>); a second \<open>destroy\<close> changes
  nothing. An \<open>update\<close> after \<open>destroy\<close> does to the outside what the same \<open>update\<close>
  does on a fresh instance, and leaves the same fields, except the ones \<open>update\<close> never
  reads: the canvas, the \<open>mouse\<close> field that \<open>destroy\<close> sets, and the removed listeners.
\<close>

theorem destroy_resets:
  "subscribers (destroy s) = []
   \<and> keys (destroy s) = Map.empty
   \<and> gamepad (destroy s) = None
   \<and> lastGamepadButtons (destroy s) = []
   \<and> lastGamepadAxes (destroy s) = []
   \<and> destroy (destroy s) = destroy s
   \<and> snd (update h (destroy s) g) = snd (update h (constructor cv) g)
   \<and> fst (update h (destroy s) g) =
       (fst (update h (constructor cv) g))
         \<lparr>canvas := canvas s, mouse := mouse (destroy s), listening := False\<rparr>"
proof -
  have eq: "destroy s = (constructor cv)\<lparr>canvas := canvas s, mouse := mouse (destroy s), listening := False\<rparr>"
    by (simp add: destroy_def constructor_def)
  have frame: "\<And>s0 c m l. updateGamepad_slots h (s0\<lparr>canvas := c, mouse := m, listening := l\<rparr>) gs
      = (fst (updateGamepad_slots h s0 gs)\<lparr>canvas := c, mouse := m, listening := l\<rparr>,
         snd (updateGamepad_slots h s0 gs))" for gs
  proof (induction gs)
    case Nil
    show ?case by simp
  next
    case (Cons g gs)
    show ?case
    proof (cases g)
      case None
      then show ?thesis using Cons.IH by simp
    next
      case (Some gp)
      have b: "updateGamepad_buttons h
                 (s0\<lparr>canvas := c, mouse := m, listening := l, gamepad := Some gp, lastGamepadAxes := axes gp\<rparr>) gp 0
               = updateGamepad_buttons h (s0\<lparr>gamepad := Some gp, lastGamepadAxes := axes gp\<rparr>) gp 0"
        by (rule buttons_snapshot_only) simp_all
      show ?thesis
        using Some b
        by (simp add: updateGamepad_device_def Let_def handleGamepadAxis_def broadcast_def)
    qed
  qed
  have upd: "update h (destroy s) g =
       ((fst (update h (constructor cv) g))\<lparr>canvas := canvas s, mouse := mouse (destroy s), listening := False\<rparr>,
        snd (update h (constructor cv) g))"
    by (subst eq, cases g) (simp_all add: update_def updateGamepad_def frame)
  show ?thesis
    unfolding upd by (simp add: destroy_def)
qed

theorem destroy_resets_witness:
  "subscribers (destroy sample_input) = []
   \<and> destroy (destroy sample_input) = destroy sample_input
   \<and> snd (update sample_heap (destroy sample_input)
         (Some [Some \<lparr>axes = [Fin (1 / 2)], buttons = [True]\<rparr>]))
       = snd (update sample_heap (constructor sample_canvas)
         (Some [Some \<lparr>axes = [Fin (1 / 2)], buttons = [True]\<rparr>]))"
  using destroy_resets[of sample_input sample_heap
      "Some [Some \<lparr>axes = [Fin (1 / 2)], buttons = [True]\<rparr>]" sample_canvas]
  by simp




text \<open>
  C9. The subscriber list of a fresh instance has no reference twice, and every call
  (\<open>subscribe\<close>, \<open>unsubscribe\<close>, the handle's \<open>unsubscribe\<close>, \<open>destroy\<close>, \<open>update\<close>,
  a host event) keeps it so. \<open>unsubscribe\<close> takes out one entry, the first for the
  reference; as there is at most one, the reference is not in the list afterwards.
\<close>

theorem subscribers_distinct:
  "distinct (subscribers (constructor cv))
   \<and> (distinct (subscribers s) \<longrightarrow> distinct (subscribers (fst (step h s op))))
   \<and> (distinct (subscribers s) \<longrightarrow> distinct (subscribers (fst (subscribe s r))))
   \<and> (distinct (subscribers s) \<longrightarrow> distinct (subscribers (unsubscribe s r)))
   \<and> (distinct (subscribers s) \<longrightarrow> distinct (subscribers (handle_unsubscribe s (Handle r))))
   \<and> distinct (subscribers (destroy s))
   \<and> subscribers (unsubscribe s r) = remove1 r (subscribers s)
   \<and> (distinct (subscribers s) \<longrightarrow> r \<notin> set (subscribers (unsubscribe s r)))"
  using step_distinct[of s h op]
  by (simp add: constructor_def subscribe_state unsubscribe_remove1 destroy_def)

theorem subscribers_distinct_witness:
  "distinct (subscribers sample_input)
   \<and> distinct (subscribers (fst (step sample_heap sample_input (Subscribe 2))))
   \<and> distinct (subscribers (fst (subscribe sample_input 2)))
   \<and> distinct (subscribers (handle_unsubscribe sample_input (Handle 2)))
   \<and> 2 \<notin> set (subscribers (unsubscribe sample_input 2))"
  using subscribers_distinct[of sample_canvas sample_input sample_heap "Subscribe 2" 2]
  by (simp add: sample_input_def constructor_def)

end
